theory Spec2Isabelle
  imports Complex_Main "HOL-Library.Signed_Division"
begin

section \<open>Sculpt visibility (paint hide): data model\<close>

text \<open>
  The embedding follows \<^verbatim>\<open>namespace blender::ed::sculpt_paint::hide\<close>.
  Element indices (\<^verbatim>\<open>int\<close> in the source, never negative for a valid element) are
  natural numbers. A \<^verbatim>\<open>Span<T>\<close> or \<^verbatim>\<open>Array<T>\<close> is a list. A named attribute that
  may be missing from the attribute store is an \<open>option\<close>.
\<close>

datatype VisAction = Hide | Show

definition action_to_hide :: "VisAction \<Rightarrow> bool" where
  "action_to_hide action = (action = Hide)"

datatype UndoType = HideVert | HideFace

text \<open>
  A \<^verbatim>\<open>PBVHNode\<close> is opaque in the source; the record holds what its accessors return:
  \<^verbatim>\<open>node_unique_verts\<close>, \<^verbatim>\<open>node_verts\<close> (unique and shared vertices),
  \<^verbatim>\<open>node_face_indices_calc_mesh\<close>, \<^verbatim>\<open>node_grid_indices\<close>,
  \<^verbatim>\<open>BKE_pbvh_bmesh_node_unique_verts\<close>, \<^verbatim>\<open>BKE_pbvh_bmesh_node_other_verts\<close>,
  \<^verbatim>\<open>BKE_pbvh_bmesh_node_faces\<close>, and the cached flags set by
  \<^verbatim>\<open>BKE_pbvh_node_fully_hidden_set\<close>, \<^verbatim>\<open>BKE_pbvh_node_mark_update_visibility\<close> and
  \<^verbatim>\<open>BKE_pbvh_node_mark_rebuild_draw\<close>. \<open>node_addr\<close> stands for the node's address,
  which is how the undo log tells nodes apart.
\<close>

record PBVHNode =
  node_addr :: nat
  unique_verts :: "nat list"
  node_verts :: "nat list"
  node_faces :: "nat list"
  grid_indices :: "nat list"
  bm_unique_verts :: "nat list"
  bm_other_verts :: "nat list"
  bm_faces :: "nat list"
  fully_hidden :: bool
  update_visibility :: bool
  rebuild_draw :: bool

subsection \<open>Public API: \<^verbatim>\<open>node_visible_verts\<close>\<close>

text \<open>
  \<^verbatim>\<open>Span::operator[]\<close> asserts that the index is in range; a read out of range is the
  value \<open>None\<close>.
\<close>

definition span_get :: "'a list \<Rightarrow> nat \<Rightarrow> 'a option" where
  "span_get xs i = (if i < length xs then Some (xs ! i) else None)"

text \<open>
  \<^verbatim>\<open>Vector::resize\<close>: shrinking cuts the tail off, growing appends elements whose
  content is not initialised (written as 0 here).
\<close>

definition vector_resize :: "nat list \<Rightarrow> nat \<Rightarrow> nat list" where
  "vector_resize xs n = take n xs @ replicate (n - length xs) 0"

text \<open>
  \<^verbatim>\<open>std::copy_if(first, last, d_first, pred)\<close>: writes the accepted elements at the
  output position, which it advances, and returns the final output position.
\<close>

fun copy_if :: "nat list \<Rightarrow> (nat \<Rightarrow> bool option) \<Rightarrow> nat list \<Rightarrow> nat \<Rightarrow> (nat list \<times> nat) option" where
  "copy_if [] pred out pos = Some (out, pos)"
| "copy_if (v # vs) pred out pos =
     (case pred v of
        None \<Rightarrow> None
      | Some True \<Rightarrow> copy_if vs pred (out[pos := v]) (Suc pos)
      | Some False \<Rightarrow> copy_if vs pred out pos)"

definition node_visible_verts :: "PBVHNode \<Rightarrow> bool list \<Rightarrow> nat list \<Rightarrow> nat list option" where
  "node_visible_verts node hide_vert indices =
     (if fully_hidden node then Some []
      else
        let verts = unique_verts node in
        if hide_vert = [] then Some verts
        else
          let indices1 = vector_resize indices (length verts) in
          case copy_if verts (\<lambda>vert. map_option Not (span_get hide_vert vert)) indices1 0 of
            None \<Rightarrow> None
          | Some (indices2, end_pos) \<Rightarrow> Some (vector_resize indices2 end_pos))"

section \<open>Collaborators of the polygon mesh paths\<close>

text \<open>
  The undo log, the multires layer and the PBVH synchronisation are outside of the
  file; a call to one of them is recorded as an effect, in call order.
\<close>

datatype Effect = UndoPush nat UndoType | MultiresHiddenModified | SyncVisibilityFromVerts

text \<open>
  \<^verbatim>\<open>mesh.faces()\<close> gives for every face its \<^verbatim>\<open>IndexRange\<close> of corners, a pair of the
  first corner and the number of corners; \<^verbatim>\<open>corner_verts\<close> and \<^verbatim>\<open>corner_edges\<close> map a
  corner to its vertex and edge. The \<^verbatim>\<open>.hide_vert\<close>, \<^verbatim>\<open>.hide_edge\<close>, \<^verbatim>\<open>.hide_poly\<close> and
  \<^verbatim>\<open>.sculpt_mask\<close> attributes may be absent.
\<close>

record Mesh =
  verts_num :: nat
  faces :: "(nat \<times> nat) list"
  corner_verts :: "nat list"
  corner_edges :: "nat list"
  edges :: "(nat \<times> nat) list"
  hide_vert :: "bool list option"
  hide_edge :: "bool list option"
  hide_poly :: "bool list option"
  sculpt_mask :: "real list option"

text \<open>
  The object with its sculpt session: the mesh, the hidden bits of the subdivision
  grids (\<^verbatim>\<open>subdiv_ccg.grid_hidden\<close>, a \<^verbatim>\<open>BitGroupVector\<close> that is empty when nothing
  was ever hidden) with the number of grids and \<^verbatim>\<open>key.grid_size\<close>, the hidden flags of
  the dynamic topology mesh, and the effects recorded so far.
\<close>

record Object =
  mesh :: Mesh
  grid_hidden :: "bool list list"
  grids_num :: nat
  grid_size :: nat
  grid_mask :: "real list list option"
  bm_vert_hidden :: "bool list"
  bm_vert_mask :: "real list"
  bm_face_hidden :: "bool list"
  effects :: "Effect list"

definition push_node :: "Object \<Rightarrow> PBVHNode \<Rightarrow> UndoType \<Rightarrow> Object" where
  "push_node object node type = object\<lparr>effects := effects object @ [UndoPush (node_addr node) type]\<rparr>"

text \<open>
  The attribute store: \<^verbatim>\<open>lookup_or_default\<close> and \<^verbatim>\<open>lookup_or_add_for_write_span\<close> read an
  absent boolean attribute as all false, of the size of its domain.
\<close>

definition lookup_or_default :: "bool list option \<Rightarrow> nat \<Rightarrow> bool list" where
  "lookup_or_default attribute n = (case attribute of None \<Rightarrow> replicate n False | Some xs \<Rightarrow> xs)"

text \<open>\<^verbatim>\<open>array_utils\<close>: gather, scatter and the comparison of indexed data.\<close>

definition gather :: "'a list \<Rightarrow> nat list \<Rightarrow> 'a list" where
  "gather src indices = map (\<lambda>i. src ! i) indices"

definition scatter :: "'a list \<Rightarrow> nat list \<Rightarrow> 'a list \<Rightarrow> 'a list" where
  "scatter src indices dst = fold (\<lambda>i d. d[indices ! i := src ! i]) [0..<length indices] dst"

definition indexed_data_equal :: "'a list \<Rightarrow> nat list \<Rightarrow> 'a list \<Rightarrow> bool" where
  "indexed_data_equal all_values indices values =
     list_all (\<lambda>i. all_values ! (indices ! i) = values ! i) [0..<length indices]"

definition slice :: "'a list \<Rightarrow> nat \<times> nat \<Rightarrow> 'a list" where
  "slice xs rng = take (snd rng) (drop (fst rng) xs)"

text \<open>
  Modelled from the spec: \<^verbatim>\<open>bke::pbvh::node_update_visibility_mesh\<close> is not in the file.
  It recomputes the node's "fully hidden" cache from the node's own vertex set.
\<close>

definition node_update_visibility_mesh :: "bool list \<Rightarrow> PBVHNode \<Rightarrow> PBVHNode" where
  "node_update_visibility_mesh hide_vert_span node =
     node\<lparr>fully_hidden := list_all (\<lambda>v. hide_vert_span ! v) (node_verts node)\<rparr>"

text \<open>
  Modelled from the spec: \<^verbatim>\<open>bke::mesh_edge_hide_from_vert\<close> and
  \<^verbatim>\<open>bke::mesh_face_hide_from_vert\<close> are not in the file. The first recomputes the
  hidden-edge attribute as OR-of-endpoint-hidden for all edges, the second the
  hidden-face attribute as OR-of-corner-vertex-hidden for all faces.
\<close>

definition mesh_edge_hide_from_vert :: "(nat \<times> nat) list \<Rightarrow> bool list \<Rightarrow> bool list" where
  "mesh_edge_hide_from_vert es hide_vert_span =
     map (\<lambda>e. hide_vert_span ! fst e \<or> hide_vert_span ! snd e) es"

definition mesh_face_hide_from_vert :: "(nat \<times> nat) list \<Rightarrow> nat list \<Rightarrow> bool list \<Rightarrow> bool list" where
  "mesh_face_hide_from_vert fcs cverts hide_vert_span =
     map (\<lambda>face. list_ex (\<lambda>v. hide_vert_span ! v) (slice cverts face)) fcs"

text \<open>
  Modelled from the spec: \<^verbatim>\<open>bke::mesh_hide_vert_flush\<close> is not in the file. It
  re-flushes edges and faces from the per-vertex hidden attribute (absent: everything
  visible).
\<close>

definition mesh_hide_vert_flush :: "Mesh \<Rightarrow> Mesh" where
  "mesh_hide_vert_flush m =
     (let hv = lookup_or_default (hide_vert m) (verts_num m) in
      m\<lparr>hide_edge := Some (mesh_edge_hide_from_vert (edges m) hv),
        hide_poly := Some (mesh_face_hide_from_vert (faces m) (corner_verts m) hv)\<rparr>)"

text \<open>
  Modelled from the spec: \<^verbatim>\<open>bke::mesh_hide_face_flush\<close> is not in the file. It flushes
  the face flags down to vertices and edges and leaves the face flags as they are. The
  rule is the one \<^verbatim>\<open>sync_all_from_faces\<close> spells out for the dynamic topology mesh:
  hide all vertices and edges attached to faces, then unhide those attached to a
  visible face.
\<close>

definition fill_indices :: "bool list \<Rightarrow> nat list \<Rightarrow> bool \<Rightarrow> bool list" where
  "fill_indices xs indices b = fold (\<lambda>i ys. ys[i := b]) indices xs"

definition mesh_hide_face_flush :: "Mesh \<Rightarrow> Mesh" where
  "mesh_hide_face_flush m =
     (let hp = lookup_or_default (hide_poly m) (length (faces m));
          hv0 = lookup_or_default (hide_vert m) (verts_num m);
          he0 = lookup_or_default (hide_edge m) (length (edges m));
          hv1 = fold (\<lambda>face hv. fill_indices hv (slice (corner_verts m) face) True) (faces m) hv0;
          he1 = fold (\<lambda>face he. fill_indices he (slice (corner_edges m) face) True) (faces m) he0;
          visible = map snd (filter (\<lambda>fh. \<not> fst fh) (zip hp (faces m)));
          hv2 = fold (\<lambda>face hv. fill_indices hv (slice (corner_verts m) face) False) visible hv1;
          he2 = fold (\<lambda>face he. fill_indices he (slice (corner_edges m) face) False) visible he1
      in m\<lparr>hide_vert := Some hv2, hide_edge := Some he2\<rparr>)"

section \<open>Internal visibility utilities (polygon mesh)\<close>

text \<open>
  \<^verbatim>\<open>calc_face_hide\<close>: the loop over the node's faces writes entry \<open>i\<close> of the output.
\<close>

definition calc_face_hide :: "nat list \<Rightarrow> (nat \<times> nat) list \<Rightarrow> nat list \<Rightarrow> bool list \<Rightarrow> bool list \<Rightarrow> bool list" where
  "calc_face_hide nfaces fcs cverts hide_vert_span hide_face =
     fold (\<lambda>i hf. hf[i := list_ex (\<lambda>v. hide_vert_span ! v) (slice cverts (fcs ! (nfaces ! i)))])
       [0..<length nfaces] hide_face"

text \<open>
  \<^verbatim>\<open>flush_face_changes_node\<close>: one round of the loop over the nodes, on the node and the
  \<^verbatim>\<open>.hide_poly\<close> span.
\<close>

definition flush_face_changes_node_step :: "Mesh \<Rightarrow> bool list \<Rightarrow> PBVHNode \<Rightarrow> bool list \<Rightarrow> PBVHNode \<times> bool list" where
  "flush_face_changes_node_step m hide_vert_span node hide_poly_span =
     (let nfaces = node_faces node;
          new_hide0 = gather hide_poly_span nfaces;
          new_hide = calc_face_hide nfaces (faces m) (corner_verts m) hide_vert_span new_hide0
      in if indexed_data_equal hide_poly_span nfaces new_hide then (node, hide_poly_span)
         else (node_update_visibility_mesh hide_vert_span (node\<lparr>update_visibility := True\<rparr>),
               scatter new_hide nfaces hide_poly_span))"

fun flush_face_changes_node_loop :: "Mesh \<Rightarrow> bool list \<Rightarrow> PBVHNode list \<Rightarrow> bool list \<Rightarrow> PBVHNode list \<times> bool list" where
  "flush_face_changes_node_loop m hide_vert_span [] hide_poly_span = ([], hide_poly_span)"
| "flush_face_changes_node_loop m hide_vert_span (node # nodes) hide_poly_span =
     (let (node', hp1) = flush_face_changes_node_step m hide_vert_span node hide_poly_span;
          (nodes', hp2) = flush_face_changes_node_loop m hide_vert_span nodes hp1
      in (node' # nodes', hp2))"

definition flush_face_changes_node :: "Mesh \<Rightarrow> PBVHNode list \<Rightarrow> bool list \<Rightarrow> Mesh \<times> PBVHNode list" where
  "flush_face_changes_node m nodes hide_vert_span =
     (let hp0 = lookup_or_default (hide_poly m) (length (faces m));
          (nodes', hp) = flush_face_changes_node_loop m hide_vert_span nodes hp0
      in (m\<lparr>hide_poly := Some hp\<rparr>, nodes'))"

definition flush_face_changes :: "Mesh \<Rightarrow> bool list \<Rightarrow> Mesh" where
  "flush_face_changes m hide_vert_span =
     m\<lparr>hide_poly := Some (mesh_face_hide_from_vert (faces m) (corner_verts m) hide_vert_span)\<rparr>"

definition flush_edge_changes :: "Mesh \<Rightarrow> bool list \<Rightarrow> Mesh" where
  "flush_edge_changes m hide_vert_span =
     m\<lparr>hide_edge := Some (mesh_edge_hide_from_vert (edges m) hide_vert_span)\<rparr>"

text \<open>
  \<^verbatim>\<open>vert_hide_update\<close>: the loop over the nodes carries the \<^verbatim>\<open>.hide_vert\<close> span,
  \<^verbatim>\<open>any_changed\<close> and the object (for the undo pushes).
\<close>

definition vert_hide_update_step :: "(nat list \<Rightarrow> bool list \<Rightarrow> bool list) \<Rightarrow> PBVHNode \<Rightarrow> bool list \<times> bool \<times> Object \<Rightarrow> bool list \<times> bool \<times> Object" where
  "vert_hide_update_step calc_hide node st =
     (case st of (hide_vert_span, any_changed, object) \<Rightarrow>
        let verts = unique_verts node;
            new_hide = calc_hide verts (gather hide_vert_span verts)
        in if indexed_data_equal hide_vert_span verts new_hide then st
           else (scatter new_hide verts hide_vert_span, True, push_node object node HideVert))"

definition vert_hide_update :: "Object \<Rightarrow> PBVHNode list \<Rightarrow> (nat list \<Rightarrow> bool list \<Rightarrow> bool list) \<Rightarrow> Object \<times> PBVHNode list" where
  "vert_hide_update object nodes calc_hide =
     (let m = mesh object;
          hv0 = lookup_or_default (hide_vert m) (verts_num m)
      in case fold (vert_hide_update_step calc_hide) nodes (hv0, False, object) of
           (hv, any_changed, object1) \<Rightarrow>
             let m1 = m\<lparr>hide_vert := Some hv\<rparr> in
             if any_changed then
               (case flush_face_changes_node m1 nodes hv of
                  (m2, nodes2) \<Rightarrow> (object1\<lparr>mesh := flush_edge_changes m2 hv\<rparr>, nodes2))
             else (object1\<lparr>mesh := m1\<rparr>, nodes))"

section \<open>Global visibility operators (polygon mesh)\<close>

definition mesh_show_all_step :: "bool list \<Rightarrow> PBVHNode \<Rightarrow> Object \<times> PBVHNode list \<Rightarrow> Object \<times> PBVHNode list" where
  "mesh_show_all_step hide_vert_span node st =
     (case st of (object, done_nodes) \<Rightarrow>
        if list_ex (\<lambda>i. hide_vert_span ! i) (node_verts node)
        then (push_node object node HideVert, done_nodes @ [node\<lparr>rebuild_draw := True\<rparr>])
        else (object, done_nodes @ [node]))"

definition mesh_show_all :: "Object \<Rightarrow> PBVHNode list \<Rightarrow> Object \<times> PBVHNode list" where
  "mesh_show_all object nodes =
     (case (case hide_vert (mesh object) of
              Some hide_vert_span \<Rightarrow> fold (mesh_show_all_step hide_vert_span) nodes (object, [])
            | None \<Rightarrow> (object, nodes)) of
        (object1, nodes1) \<Rightarrow>
          (object1\<lparr>mesh := mesh_hide_vert_flush ((mesh object1)\<lparr>hide_vert := None\<rparr>)\<rparr>,
           map (\<lambda>node. node\<lparr>fully_hidden := False\<rparr>) nodes1))"

definition partialvis_all_update_mesh :: "Object \<Rightarrow> VisAction \<Rightarrow> PBVHNode list \<Rightarrow> Object \<times> PBVHNode list" where
  "partialvis_all_update_mesh object action nodes =
     (if action = Show \<and> hide_vert (mesh object) = None then (object, nodes)
      else case action of
             Hide \<Rightarrow> vert_hide_update object nodes (\<lambda>verts hide. replicate (length hide) True)
           | Show \<Rightarrow> mesh_show_all object nodes)"

text \<open>
  \<^verbatim>\<open>partialvis_masked_update_mesh\<close>: the callback walks the node's vertices and sets the
  entries whose mask is above one half.
\<close>

definition masked_calc_hide :: "real list \<Rightarrow> bool \<Rightarrow> nat list \<Rightarrow> bool list \<Rightarrow> bool list" where
  "masked_calc_hide mask_span val verts hide =
     fold (\<lambda>i h. if mask_span ! (verts ! i) > 0.5 then h[i := val] else h) [0..<length verts] hide"

definition partialvis_masked_update_mesh :: "Object \<Rightarrow> VisAction \<Rightarrow> PBVHNode list \<Rightarrow> Object \<times> PBVHNode list" where
  "partialvis_masked_update_mesh object action nodes =
     (if action = Show \<and> hide_vert (mesh object) = None then (object, nodes)
      else
        let mask_span = (case sculpt_mask (mesh object) of None \<Rightarrow> [] | Some xs \<Rightarrow> xs) in
        if action = Show \<and> mask_span = [] then mesh_show_all object nodes
        else if mask_span \<noteq> [] then
          vert_hide_update object nodes (masked_calc_hide mask_span (action_to_hide action))
        else (object, nodes))"

text \<open>\<^verbatim>\<open>invert_visibility_mesh\<close>.\<close>

definition invert_visibility_mesh_step :: "PBVHNode \<Rightarrow> Object \<times> bool list \<times> PBVHNode list \<Rightarrow> Object \<times> bool list \<times> PBVHNode list" where
  "invert_visibility_mesh_step node st =
     (case st of (object, hide_poly_span, done_nodes) \<Rightarrow>
        (push_node object node HideFace,
         fold (\<lambda>face hp. hp[face := \<not> hp ! face]) (node_faces node) hide_poly_span,
         done_nodes @ [node\<lparr>update_visibility := True\<rparr>]))"

definition invert_visibility_mesh :: "Object \<Rightarrow> PBVHNode list \<Rightarrow> Object \<times> PBVHNode list" where
  "invert_visibility_mesh object nodes =
     (let m = mesh object;
          hp0 = lookup_or_default (hide_poly m) (length (faces m))
      in case fold invert_visibility_mesh_step nodes (object, hp0, []) of
           (object1, hp, nodes1) \<Rightarrow>
             (object1\<lparr>mesh := mesh_hide_face_flush (m\<lparr>hide_poly := Some hp\<rparr>)\<rparr>, nodes1))"

section \<open>Visibility filter: grow and shrink (polygon mesh)\<close>

text \<open>
  The items of the operator's \<^verbatim>\<open>action\<close> enum in \<^verbatim>\<open>PAINT_OT_visibility_filter\<close>:
  \<^verbatim>\<open>GROW\<close> ("Grow Visibility") is \<^verbatim>\<open>VisAction::Show\<close> and \<^verbatim>\<open>SHRINK\<close> ("Shrink Visibility")
  is \<^verbatim>\<open>VisAction::Hide\<close>.
\<close>

definition GROW :: VisAction where
  "GROW = Show"

definition SHRINK :: VisAction where
  "SHRINK = Hide"

text \<open>
  Modelled from the spec: \<^verbatim>\<open>bke::mesh::face_corner_prev\<close> and
  \<^verbatim>\<open>bke::mesh::face_corner_next\<close> are not in the file. They give the immediate
  predecessor and successor of a corner in the face's corner loop.
\<close>

definition face_corner_prev :: "nat \<times> nat \<Rightarrow> nat \<Rightarrow> nat" where
  "face_corner_prev face corner =
     (if corner = fst face then fst face + snd face - 1 else corner - 1)"

definition face_corner_next :: "nat \<times> nat \<Rightarrow> nat \<Rightarrow> nat" where
  "face_corner_next face corner =
     (if corner = fst face + snd face - 1 then fst face else corner + 1)"

text \<open>\<^verbatim>\<open>affect_visibility_mesh<value>\<close>; the template argument is the first argument.\<close>

definition affect_visibility_mesh :: "bool \<Rightarrow> nat \<times> nat \<Rightarrow> nat list \<Rightarrow> bool list \<Rightarrow> bool list \<Rightarrow> bool list" where
  "affect_visibility_mesh val face cverts rbuf wbuf =
     fold (\<lambda>corner wb.
             if rbuf ! (cverts ! corner) \<noteq> val then wb
             else (wb[cverts ! face_corner_prev face corner := val])
                     [cverts ! face_corner_next face corner := val])
       [fst face..<fst face + snd face] wbuf"

text \<open>
  \<^verbatim>\<open>DualBuffer\<close>. The count is an \<^verbatim>\<open>int\<close> and \<^verbatim>\<open>%\<close> truncates towards zero
  (\<open>smod\<close>); the mutable span that \<^verbatim>\<open>write_buffer\<close> returns is written through
  \<open>set_write_buffer\<close>. The fields \<^verbatim>\<open>front\<close> and \<^verbatim>\<open>back\<close> are \<open>buf_front\<close> and
  \<open>buf_back\<close>.
\<close>

record DualBuffer =
  buf_front :: "bool list"
  buf_back :: "bool list"

definition write_buffer :: "DualBuffer \<Rightarrow> int \<Rightarrow> bool list" where
  "write_buffer buffers count = (if count smod 2 = 0 then buf_back buffers else buf_front buffers)"

definition set_write_buffer :: "DualBuffer \<Rightarrow> int \<Rightarrow> bool list \<Rightarrow> DualBuffer" where
  "set_write_buffer buffers count xs =
     (if count smod 2 = 0 then buffers\<lparr>buf_back := xs\<rparr> else buffers\<lparr>buf_front := xs\<rparr>)"

definition read_buffer :: "DualBuffer \<Rightarrow> int \<Rightarrow> bool list" where
  "read_buffer buffers count = (if count smod 2 = 0 then buf_front buffers else buf_back buffers)"

text \<open>
  The \<^verbatim>\<open>VArraySpan\<close> of \<^verbatim>\<open>.hide_poly\<close> that \<^verbatim>\<open>grow_shrink_visibility_mesh\<close> takes before
  the loop: a view of the attribute's own array when the attribute exists (so it shows
  what \<^verbatim>\<open>flush_face_changes\<close> writes, which is why the source copies \<^verbatim>\<open>orig_hide_poly\<close>
  first), and a private array of the default value when it does not.
\<close>

datatype VArraySpan = AttributeView | OwnedCopy "bool list"

definition varray_span_read :: "VArraySpan \<Rightarrow> Mesh \<Rightarrow> bool list" where
  "varray_span_read view m =
     (case view of
        AttributeView \<Rightarrow> lookup_or_default (hide_poly m) (length (faces m))
      | OwnedCopy xs \<Rightarrow> xs)"

text \<open>
  The loop over all faces inside one iteration of \<^verbatim>\<open>propagate_vertex_visibility\<close>.
\<close>

definition propagate_faces :: "(nat \<times> nat) list \<Rightarrow> nat list \<Rightarrow> bool list \<Rightarrow> VisAction \<Rightarrow> bool list \<Rightarrow> bool list \<Rightarrow> bool list" where
  "propagate_faces fcs cverts hide_poly_span action rbuf wbuf =
     fold (\<lambda>face_index wb.
             if \<not> hide_poly_span ! face_index then wb
             else
               let face = fcs ! face_index in
               if action = Hide then affect_visibility_mesh True face cverts rbuf wb
               else affect_visibility_mesh False face cverts rbuf wb)
       [0..<length fcs] wbuf"

definition propagate_step :: "VArraySpan \<Rightarrow> VisAction \<Rightarrow> nat \<Rightarrow> Mesh \<times> DualBuffer \<Rightarrow> Mesh \<times> DualBuffer" where
  "propagate_step view action i st =
     (case st of (m, buffers) \<Rightarrow>
        let rbuf = read_buffer buffers (int i);
            wbuf = write_buffer buffers (int i);
            wbuf' = propagate_faces (faces m) (corner_verts m) (varray_span_read view m) action rbuf wbuf
        in (flush_face_changes m wbuf', set_write_buffer buffers (int i) wbuf'))"

definition propagate_vertex_visibility :: "Mesh \<Rightarrow> DualBuffer \<Rightarrow> VArraySpan \<Rightarrow> VisAction \<Rightarrow> nat \<Rightarrow> Mesh \<times> DualBuffer" where
  "propagate_vertex_visibility m buffers view action iterations =
     fold (propagate_step view action) [0..<iterations] (m, buffers)"

definition update_undo_state :: "Object \<Rightarrow> PBVHNode list \<Rightarrow> bool list \<Rightarrow> bool list \<Rightarrow> Object" where
  "update_undo_state object nodes old_hide_vert new_hide_vert =
     fold (\<lambda>node ob.
             if list_ex (\<lambda>vert. old_hide_vert ! vert \<noteq> new_hide_vert ! vert) (unique_verts node)
             then push_node ob node HideVert else ob)
       nodes object"

definition update_node_visibility_from_face_changes :: "PBVHNode list \<Rightarrow> bool list \<Rightarrow> bool list \<Rightarrow> bool list \<Rightarrow> PBVHNode list" where
  "update_node_visibility_from_face_changes nodes orig_hide_poly new_hide_poly hide_vert_span =
     map (\<lambda>node.
            if list_ex (\<lambda>face_index. orig_hide_poly ! face_index \<noteq> new_hide_poly ! face_index)
                 (node_faces node)
            then node_update_visibility_mesh hide_vert_span (node\<lparr>update_visibility := True\<rparr>)
            else node)
       nodes"

definition grow_shrink_visibility_mesh :: "Object \<Rightarrow> PBVHNode list \<Rightarrow> VisAction \<Rightarrow> nat \<Rightarrow> Object \<times> PBVHNode list" where
  "grow_shrink_visibility_mesh object nodes action iterations =
     (case hide_vert (mesh object) of
        None \<Rightarrow> (object, nodes)
      | Some hide_vert_span \<Rightarrow>
          let m = mesh object;
              view = (case hide_poly m of
                        Some xs \<Rightarrow> AttributeView
                      | None \<Rightarrow> OwnedCopy (replicate (length (faces m)) False));
              buffers = \<lparr>buf_front = hide_vert_span, buf_back = hide_vert_span\<rparr>;
              orig_hide_poly = varray_span_read view m
          in case propagate_vertex_visibility m buffers view action iterations of
               (m1, buffers1) \<Rightarrow>
                 let last_buffer = write_buffer buffers1 (int iterations - 1);
                     object1 = update_undo_state object nodes hide_vert_span last_buffer;
                     m2 = flush_edge_changes m1 last_buffer;
                     nodes1 = update_node_visibility_from_face_changes nodes orig_hide_poly
                                (varray_span_read view m2) last_buffer
                 in (object1\<lparr>mesh := m2\<lparr>hide_vert := Some last_buffer\<rparr>\<rparr>, nodes1))"

section \<open>Subdivision grids\<close>

text \<open>
  Modelled from the spec: \<^verbatim>\<open>BKE_subdiv_ccg_grid_hidden_ensure\<close>,
  \<^verbatim>\<open>BKE_subdiv_ccg_grid_hidden_free\<close> and \<^verbatim>\<open>bke::pbvh::node_update_visibility_grids\<close> are
  not in the file. The first allocates the hidden-bit structure lazily (all bits
  clear, one group of \<open>grid_size * grid_size\<close> bits for each grid), the second frees it,
  the third recomputes the node's "fully hidden" cache: all owned elements are hidden.
\<close>

definition grid_hidden_ensure :: "Object \<Rightarrow> Object" where
  "grid_hidden_ensure object =
     (if grid_hidden object = []
      then object\<lparr>grid_hidden :=
             replicate (grids_num object) (replicate (grid_size object * grid_size object) False)\<rparr>
      else object)"

definition grid_hidden_free :: "Object \<Rightarrow> Object" where
  "grid_hidden_free object = object\<lparr>grid_hidden := []\<rparr>"

definition node_update_visibility_grids :: "bool list list \<Rightarrow> PBVHNode \<Rightarrow> PBVHNode" where
  "node_update_visibility_grids gh node =
     node\<lparr>fully_hidden := list_all (\<lambda>g. list_all (\<lambda>b. b) (gh ! g)) (grid_indices node)\<rparr>"

definition add_effect :: "Effect \<Rightarrow> Object \<Rightarrow> Object" where
  "add_effect e object = object\<lparr>effects := effects object @ [e]\<rparr>"

text \<open>
  \<^verbatim>\<open>grid_hide_update\<close>: one round of the loop over the nodes; the state is the object
  (with \<^verbatim>\<open>grid_hidden\<close>), \<^verbatim>\<open>any_changed\<close> and the nodes done so far.
\<close>

definition grid_hide_update_step :: "(nat \<Rightarrow> bool list \<Rightarrow> bool list) \<Rightarrow> PBVHNode \<Rightarrow> Object \<times> bool \<times> PBVHNode list \<Rightarrow> Object \<times> bool \<times> PBVHNode list" where
  "grid_hide_update_step calc_hide node st =
     (case st of (object, any_changed, done_nodes) \<Rightarrow>
        let grids = grid_indices node;
            gh = grid_hidden object;
            new_hide = map (\<lambda>g. calc_hide g (gh ! g)) grids
        in if list_all (\<lambda>i. gh ! (grids ! i) = new_hide ! i) [0..<length grids]
           then (object, any_changed, done_nodes @ [node])
           else
             let object1 = push_node object node HideVert;
                 gh1 = fold (\<lambda>i h. h[grids ! i := new_hide ! i]) [0..<length grids] gh
             in (object1\<lparr>grid_hidden := gh1\<rparr>, True,
                 done_nodes @ [node_update_visibility_grids gh1 (node\<lparr>update_visibility := True\<rparr>)]))"

definition grid_hide_update :: "Object \<Rightarrow> PBVHNode list \<Rightarrow> (nat \<Rightarrow> bool list \<Rightarrow> bool list) \<Rightarrow> Object \<times> PBVHNode list" where
  "grid_hide_update object nodes calc_hide =
     (case fold (grid_hide_update_step calc_hide) nodes (grid_hidden_ensure object, False, []) of
        (object1, any_changed, nodes1) \<Rightarrow>
          if any_changed
          then (add_effect SyncVisibilityFromVerts (add_effect MultiresHiddenModified object1), nodes1)
          else (object1, nodes1))"

definition grids_show_all_step :: "bool list list \<Rightarrow> PBVHNode \<Rightarrow> Object \<times> bool \<times> PBVHNode list \<Rightarrow> Object \<times> bool \<times> PBVHNode list" where
  "grids_show_all_step gh node st =
     (case st of (object, any_changed, done_nodes) \<Rightarrow>
        if list_ex (\<lambda>i. list_ex (\<lambda>b. b) (gh ! i)) (grid_indices node)
        then (push_node object node HideVert, True, done_nodes @ [node\<lparr>rebuild_draw := True\<rparr>])
        else (object, any_changed, done_nodes @ [node]))"

definition grids_show_all :: "Object \<Rightarrow> PBVHNode list \<Rightarrow> Object \<times> PBVHNode list" where
  "grids_show_all object nodes =
     (case (if grid_hidden object \<noteq> []
            then fold (grids_show_all_step (grid_hidden object)) nodes (object, False, [])
            else (object, False, nodes)) of
        (object1, any_changed, nodes1) \<Rightarrow>
          if \<not> any_changed then (object1, nodes1)
          else
            (add_effect MultiresHiddenModified
               (add_effect SyncVisibilityFromVerts (grid_hidden_free object1)),
             map (\<lambda>node. node\<lparr>fully_hidden := False\<rparr>) nodes1))"

definition partialvis_all_update_grids :: "Object \<Rightarrow> VisAction \<Rightarrow> PBVHNode list \<Rightarrow> Object \<times> PBVHNode list" where
  "partialvis_all_update_grids object action nodes =
     (case action of
        Hide \<Rightarrow> grid_hide_update object nodes (\<lambda>grid hide. replicate (length hide) True)
      | Show \<Rightarrow> grids_show_all object nodes)"

text \<open>
  \<^verbatim>\<open>partialvis_masked_update_grids\<close>: \<^verbatim>\<open>CCG_elem_mask\<close> of the element at \<open>(x, y)\<close> of a
  grid is entry \<open>y * grid_size + x\<close> of the grid's mask values; \<^verbatim>\<open>key.has_mask\<close> says
  whether the grids carry a mask.
\<close>

definition grids_masked_calc_hide :: "real list list \<Rightarrow> nat \<Rightarrow> bool \<Rightarrow> nat \<Rightarrow> bool list \<Rightarrow> bool list" where
  "grids_masked_calc_hide masks gsize val grid_index hide =
     fold (\<lambda>y h. fold (\<lambda>x h'. if masks ! grid_index ! (y * gsize + x) > 0.5
                                then h'[y * gsize + x := val] else h') [0..<gsize] h)
       [0..<gsize] hide"

definition partialvis_masked_update_grids :: "Object \<Rightarrow> VisAction \<Rightarrow> PBVHNode list \<Rightarrow> Object \<times> PBVHNode list" where
  "partialvis_masked_update_grids object action nodes =
     (case grid_mask object of
        None \<Rightarrow> grid_hide_update object nodes
                  (\<lambda>grid hide. replicate (length hide) (action_to_hide action))
      | Some masks \<Rightarrow> grid_hide_update object nodes
                  (grids_masked_calc_hide masks (grid_size object) (action_to_hide action)))"

text \<open>
  \<^verbatim>\<open>grow_shrink_visibility_grid\<close>. A \<^verbatim>\<open>SubdivCCGCoord\<close> is the triple of the grid index,
  \<open>x\<close> and \<open>y\<close>. \<^verbatim>\<open>BKE_subdiv_ccg_neighbor_coords_get\<close> is a collaborator: the function
  \<open>neighbors\<close> gives the coordinates it returns for a coordinate. The bit of \<open>(x, y)\<close>
  is bit \<open>y * grid_size + x\<close> of its grid, as in \<^verbatim>\<open>partialvis_masked_update_grids\<close>.
\<close>

definition CCG_grid_xy_to_index :: "nat \<Rightarrow> nat \<Rightarrow> nat \<Rightarrow> nat" where
  "CCG_grid_xy_to_index gsize x y = y * gsize + x"

record DualBitBuffer =
  bits_front :: "bool list list"
  bits_back :: "bool list list"

definition bits_write_buffer :: "DualBitBuffer \<Rightarrow> int \<Rightarrow> bool list list" where
  "bits_write_buffer buffers count =
     (if count smod 2 = 0 then bits_back buffers else bits_front buffers)"

definition bits_set_write_buffer :: "DualBitBuffer \<Rightarrow> int \<Rightarrow> bool list list \<Rightarrow> DualBitBuffer" where
  "bits_set_write_buffer buffers count xs =
     (if count smod 2 = 0 then buffers\<lparr>bits_back := xs\<rparr> else buffers\<lparr>bits_front := xs\<rparr>)"

definition bits_read_buffer :: "DualBitBuffer \<Rightarrow> int \<Rightarrow> bool list list" where
  "bits_read_buffer buffers count =
     (if count smod 2 = 0 then bits_front buffers else bits_back buffers)"

definition grow_shrink_grid_elem :: "(nat \<times> nat \<times> nat \<Rightarrow> (nat \<times> nat \<times> nat) list) \<Rightarrow> nat \<Rightarrow> bool \<Rightarrow> bool list list \<Rightarrow> nat \<Rightarrow> nat \<Rightarrow> nat \<Rightarrow> bool list list \<Rightarrow> bool list list" where
  "grow_shrink_grid_elem neighbors gsize desired_state rbuf grid_index y x wbuf =
     (if rbuf ! grid_index ! CCG_grid_xy_to_index gsize x y \<noteq> desired_state then wbuf
      else fold (\<lambda>neighbor wb.
                   case neighbor of (ngrid, nx, ny) \<Rightarrow>
                     wb[ngrid := (wb ! ngrid)[CCG_grid_xy_to_index gsize nx ny := desired_state]])
             (neighbors (grid_index, x, y)) wbuf)"

definition grow_shrink_grid_node :: "(nat \<times> nat \<times> nat \<Rightarrow> (nat \<times> nat \<times> nat) list) \<Rightarrow> nat \<Rightarrow> bool \<Rightarrow> bool list list \<Rightarrow> PBVHNode \<Rightarrow> bool list list \<Rightarrow> bool list list" where
  "grow_shrink_grid_node neighbors gsize desired_state rbuf node wbuf =
     fold (\<lambda>grid_index wb1.
             fold (\<lambda>y wb2.
                     fold (\<lambda>x wb3.
                             grow_shrink_grid_elem neighbors gsize desired_state rbuf grid_index y x wb3)
                       [0..<gsize] wb2)
               [0..<gsize] wb1)
       (grid_indices node) wbuf"

definition grow_shrink_grid_iteration :: "(nat \<times> nat \<times> nat \<Rightarrow> (nat \<times> nat \<times> nat) list) \<Rightarrow> nat \<Rightarrow> bool \<Rightarrow> PBVHNode list \<Rightarrow> nat \<Rightarrow> DualBitBuffer \<times> bool list \<Rightarrow> DualBitBuffer \<times> bool list" where
  "grow_shrink_grid_iteration neighbors gsize desired_state nodes i st =
     (case st of (buffers, node_changed) \<Rightarrow>
        let rbuf = bits_read_buffer buffers (int i);
            wbuf = bits_write_buffer buffers (int i)
        in case fold (\<lambda>node_index acc.
                        case acc of (wb, nc) \<Rightarrow>
                          (grow_shrink_grid_node neighbors gsize desired_state rbuf
                             (nodes ! node_index) wb,
                           nc[node_index := True]))
                  [0..<length nodes] (wbuf, node_changed) of
             (wbuf', node_changed') \<Rightarrow>
               (bits_set_write_buffer buffers (int i) wbuf', node_changed'))"

definition grow_shrink_visibility_grid :: "(nat \<times> nat \<times> nat \<Rightarrow> (nat \<times> nat \<times> nat) list) \<Rightarrow> Object \<Rightarrow> PBVHNode list \<Rightarrow> VisAction \<Rightarrow> nat \<Rightarrow> Object \<times> PBVHNode list" where
  "grow_shrink_visibility_grid neighbors object nodes action iterations =
     (let object0 = grid_hidden_ensure object;
          gh = grid_hidden object0;
          desired_state = action_to_hide action;
          buffers = \<lparr>bits_front = gh, bits_back = gh\<rparr>;
          node_changed0 = replicate (length nodes) False
      in case fold (grow_shrink_grid_iteration neighbors (grid_size object0) desired_state nodes)
                [0..<iterations] (buffers, node_changed0) of
           (buffers1, node_changed) \<Rightarrow>
             let object1 = fold (\<lambda>index ob. if node_changed ! index
                                              then push_node ob (nodes ! index) HideVert else ob)
                             [0..<length nodes] object0;
                 last_buffer = bits_write_buffer buffers1 (int iterations - 1);
                 object2 = object1\<lparr>grid_hidden := last_buffer\<rparr>;
                 nodes1 = map (\<lambda>node_index.
                                 if \<not> node_changed ! node_index then nodes ! node_index
                                 else node_update_visibility_grids last_buffer
                                        ((nodes ! node_index)\<lparr>update_visibility := True\<rparr>))
                            [0..<length nodes]
             in (add_effect SyncVisibilityFromVerts (add_effect MultiresHiddenModified object2),
                 nodes1))"

section \<open>Dynamic topology\<close>

text \<open>
  A \<^verbatim>\<open>BMVert\<close> or \<^verbatim>\<open>BMFace\<close> is its index; \<^verbatim>\<open>BM_ELEM_HIDDEN\<close> of the vertices and faces
  are the lists \<open>bm_vert_hidden\<close> and \<open>bm_face_hidden\<close> of the object. The predicate
  \<^verbatim>\<open>paint_is_bmesh_face_hidden\<close> is a collaborator: \<open>is_face_hidden\<close> takes the
  vertex flags and the face.
\<close>

definition partialvis_update_bmesh_verts :: "nat list \<Rightarrow> VisAction \<Rightarrow> (nat \<Rightarrow> bool) \<Rightarrow> bool list \<times> bool \<times> bool \<Rightarrow> bool list \<times> bool \<times> bool" where
  "partialvis_update_bmesh_verts verts action should_update st =
     fold (\<lambda>v acc.
             case acc of (hidden, any_changed, any_visible) \<Rightarrow>
               let hidden1 = (if should_update v
                              then (if action = Hide then hidden[v := True] else hidden[v := False])
                              else hidden);
                   any_changed1 = (if should_update v then True else any_changed)
               in (hidden1, any_changed1, (if \<not> hidden1 ! v then True else any_visible)))
       verts st"

definition partialvis_update_bmesh_faces :: "(bool list \<Rightarrow> nat \<Rightarrow> bool) \<Rightarrow> bool list \<Rightarrow> nat list \<Rightarrow> bool list \<Rightarrow> bool list" where
  "partialvis_update_bmesh_faces is_face_hidden vert_hidden fs face_hidden =
     fold (\<lambda>f fh. if is_face_hidden vert_hidden f then fh[f := True] else fh[f := False])
       fs face_hidden"

definition partialvis_update_bmesh_node :: "(bool list \<Rightarrow> nat \<Rightarrow> bool) \<Rightarrow> VisAction \<Rightarrow> (nat \<Rightarrow> bool) \<Rightarrow> PBVHNode \<Rightarrow> Object \<times> PBVHNode list \<Rightarrow> Object \<times> PBVHNode list" where
  "partialvis_update_bmesh_node is_face_hidden action vert_test_fn node st =
     (case st of (ob, done_nodes) \<Rightarrow>
        let ob1 = push_node ob node HideVert in
        case partialvis_update_bmesh_verts (bm_unique_verts node) action vert_test_fn
               (bm_vert_hidden ob1, False, False) of
          (vh1, any_changed1, any_visible1) \<Rightarrow>
            case partialvis_update_bmesh_verts (bm_other_verts node) action vert_test_fn
                   (vh1, any_changed1, any_visible1) of
              (vh2, any_changed, any_visible) \<Rightarrow>
                let fh = partialvis_update_bmesh_faces is_face_hidden vh2 (bm_faces node)
                           (bm_face_hidden ob1);
                    ob2 = ob1\<lparr>bm_vert_hidden := vh2, bm_face_hidden := fh\<rparr>;
                    node1 = (if any_changed
                             then node\<lparr>fully_hidden := \<not> any_visible, rebuild_draw := True\<rparr>
                             else node)
                in (ob2, done_nodes @ [node1]))"

definition partialvis_update_bmesh_nodes :: "(bool list \<Rightarrow> nat \<Rightarrow> bool) \<Rightarrow> Object \<Rightarrow> PBVHNode list \<Rightarrow> VisAction \<Rightarrow> (nat \<Rightarrow> bool) \<Rightarrow> Object \<times> PBVHNode list" where
  "partialvis_update_bmesh_nodes is_face_hidden ob nodes action vert_test_fn =
     fold (partialvis_update_bmesh_node is_face_hidden action vert_test_fn) nodes (ob, [])"

definition partialvis_all_update_bmesh :: "(bool list \<Rightarrow> nat \<Rightarrow> bool) \<Rightarrow> Object \<Rightarrow> VisAction \<Rightarrow> PBVHNode list \<Rightarrow> Object \<times> PBVHNode list" where
  "partialvis_all_update_bmesh is_face_hidden ob action nodes =
     partialvis_update_bmesh_nodes is_face_hidden ob nodes action (\<lambda>vert. True)"

definition partialvis_masked_update_bmesh :: "(bool list \<Rightarrow> nat \<Rightarrow> bool) \<Rightarrow> Object \<Rightarrow> VisAction \<Rightarrow> PBVHNode list \<Rightarrow> Object \<times> PBVHNode list" where
  "partialvis_masked_update_bmesh is_face_hidden ob action nodes =
     partialvis_update_bmesh_nodes is_face_hidden ob nodes action
       (\<lambda>v. bm_vert_mask ob ! v > 0.5)"

section \<open>Gesture-based visibility operators (polygon mesh)\<close>

text \<open>
  \<^verbatim>\<open>partialvis_gesture_update_mesh\<close>. The region test \<^verbatim>\<open>gesture::is_affected\<close> on the
  position and normal of a vertex is a collaborator: \<open>is_affected\<close> takes the vertex.
  The nodes are \<^verbatim>\<open>gesture_data.nodes\<close>, which need not be all nodes of the tree.
\<close>

definition gesture_calc_hide :: "(nat \<Rightarrow> bool) \<Rightarrow> bool \<Rightarrow> nat list \<Rightarrow> bool list \<Rightarrow> bool list" where
  "gesture_calc_hide is_affected val verts hide =
     fold (\<lambda>i h. if is_affected (verts ! i) then h[i := val] else h) [0..<length verts] hide"

definition partialvis_gesture_update_mesh :: "(nat \<Rightarrow> bool) \<Rightarrow> Object \<Rightarrow> VisAction \<Rightarrow> PBVHNode list \<Rightarrow> Object \<times> PBVHNode list" where
  "partialvis_gesture_update_mesh is_affected object action nodes =
     (if action = Show \<and> hide_vert (mesh object) = None then (object, nodes)
      else vert_hide_update object nodes (gesture_calc_hide is_affected (action_to_hide action)))"

section \<open>Notions used in the statements and proofs\<close>

text \<open>
  The hidden-vertex set of the polygon mesh: empty when the attribute is absent.
\<close>

definition hidden_verts :: "Object \<Rightarrow> nat set" where
  "hidden_verts ob =
     (case hide_vert (mesh ob) of
        None \<Rightarrow> {}
      | Some hv \<Rightarrow> set (filter (\<lambda>v. hv ! v) [0..<length hv]))"

text \<open>
  A corner of the face propagates to vertex \<open>v\<close>: the corner's vertex is at the target
  value in the read buffer, and \<open>v\<close> is the vertex of the corner before or after it in
  the face's corner loop.
\<close>

definition corner_propagates :: "nat \<times> nat \<Rightarrow> nat list \<Rightarrow> bool list \<Rightarrow> bool \<Rightarrow> nat \<Rightarrow> bool" where
  "corner_propagates face cverts rbuf val v =
     list_ex (\<lambda>corner. rbuf ! (cverts ! corner) = val
                \<and> (cverts ! face_corner_prev face corner = v
                     \<or> cverts ! face_corner_next face corner = v))
       [fst face..<fst face + snd face]"

text \<open>
  The face loop of one iteration as the claim words it: the faces processed are those
  whose hidden flag equals the hide value of the action.
\<close>

definition propagate_faces_as_claimed :: "(nat \<times> nat) list \<Rightarrow> nat list \<Rightarrow> bool list \<Rightarrow> VisAction \<Rightarrow> bool list \<Rightarrow> bool list \<Rightarrow> bool list" where
  "propagate_faces_as_claimed fcs cverts hide_poly_span action rbuf wbuf =
     fold (\<lambda>face_index wb.
             if hide_poly_span ! face_index \<noteq> action_to_hide action then wb
             else affect_visibility_mesh (action_to_hide action) (fcs ! face_index) cverts rbuf wb)
       [0..<length fcs] wbuf"

text \<open>
  A buffer is near the original flags for a value when it has the same length and every
  entry is either that value or the original entry.
\<close>

definition near :: "bool \<Rightarrow> bool list \<Rightarrow> bool list \<Rightarrow> bool" where
  "near val orig buf = (length buf = length orig \<and> list_all (\<lambda>v. buf ! v = val \<or> buf ! v = orig ! v) [0..<length orig])"

definition near2 :: "bool \<Rightarrow> bool list \<Rightarrow> DualBuffer \<Rightarrow> bool" where
  "near2 val orig buffers = (near val orig (buf_front buffers) \<and> near val orig (buf_back buffers))"

text \<open>
  The consistency of the derived flags of a polygon mesh: every face is hidden exactly
  when one of its corner vertices is, every edge exactly when one of its two endpoints
  is. An absent attribute reads as all false.
\<close>

definition visibility_consistent :: "Mesh \<Rightarrow> bool" where
  "visibility_consistent m =
     (let hv = lookup_or_default (hide_vert m) (verts_num m);
          hp = lookup_or_default (hide_poly m) (length (faces m));
          he = lookup_or_default (hide_edge m) (length (edges m))
      in length hp = length (faces m) \<and> length he = length (edges m)
         \<and> list_all (\<lambda>f. hp ! f = list_ex (\<lambda>v. hv ! v) (slice (corner_verts m) (faces m ! f)))
               [0..<length (faces m)]
         \<and> list_all (\<lambda>e. he ! e = (hv ! fst (edges m ! e) \<or> hv ! snd (edges m ! e)))
               [0..<length (edges m)])"

text \<open>
  The node set covers the mesh: every face is among the faces of some node, as for the
  nodes that \<^verbatim>\<open>search_gather\<close> returns for the whole tree.
\<close>

definition nodes_cover_faces :: "PBVHNode list \<Rightarrow> Mesh \<Rightarrow> bool" where
  "nodes_cover_faces nodes m =
     list_all (\<lambda>f. list_ex (\<lambda>node. f \<in> set (node_faces node)) nodes) [0..<length (faces m)]"

text \<open>
  The node set contains every face one of whose corner vertices has a different hidden
  flag in the second mesh than in the first: the faces that the operation leading from
  the first to the second can have made stale. A node set that covers the mesh does.
\<close>

definition changed_faces_covered :: "PBVHNode list \<Rightarrow> Mesh \<Rightarrow> Mesh \<Rightarrow> bool" where
  "changed_faces_covered nodes m m' =
     list_all (\<lambda>f. list_ex (\<lambda>node. f \<in> set (node_faces node)) nodes
                 \<or> list_all (\<lambda>v. lookup_or_default (hide_vert m) (verts_num m) ! v
                                    = lookup_or_default (hide_vert m') (verts_num m') ! v)
                      (slice (corner_verts m) (faces m ! f)))
       [0..<length (faces m)]"

text \<open>
  The \<^verbatim>\<open>.hide_poly\<close> span that \<^verbatim>\<open>grow_shrink_visibility_mesh\<close> hands to
  \<^verbatim>\<open>propagate_vertex_visibility\<close> for a mesh, and the mesh and buffers after the first
  \<open>k\<close> iterations of the pass it runs on vertex flags \<open>hv\<close>.
\<close>

definition pass_view :: "Mesh \<Rightarrow> VArraySpan" where
  "pass_view m =
     (case hide_poly m of
        Some xs \<Rightarrow> AttributeView
      | None \<Rightarrow> OwnedCopy (replicate (length (faces m)) False))"

definition pass_state :: "Mesh \<Rightarrow> bool list \<Rightarrow> VisAction \<Rightarrow> nat \<Rightarrow> Mesh \<times> DualBuffer" where
  "pass_state m hv action k =
     propagate_vertex_visibility m \<lparr>buf_front = hv, buf_back = hv\<rparr> (pass_view m) action k"

section \<open>Example states\<close>

text \<open>
  A quad strip: six vertices, two quads sharing the edge between vertices 1 and 4,
  seven edges; vertex 0 is hidden, so are the first face and the two edges at vertex 0.
\<close>

definition quad_strip :: Mesh where
  "quad_strip = \<lparr>verts_num = 6, faces = [(0, 4), (4, 4)],
     corner_verts = [0, 1, 4, 3, 1, 2, 5, 4], corner_edges = [0, 1, 2, 3, 4, 5, 6, 1],
     edges = [(0, 1), (1, 4), (4, 3), (3, 0), (1, 2), (2, 5), (5, 4)],
     hide_vert = Some [True, False, False, False, False, False],
     hide_edge = Some [True, False, False, True, False, False, False],
     hide_poly = Some [True, False], sculpt_mask = Some [0, 0, 0, 0, 0, 0]\<rparr>"

definition empty_mesh :: Mesh where
  "empty_mesh = \<lparr>verts_num = 0, faces = [], corner_verts = [], corner_edges = [], edges = [],
     hide_vert = None, hide_edge = None, hide_poly = None, sculpt_mask = None\<rparr>"

definition quad_strip_object :: Object where
  "quad_strip_object = \<lparr>mesh = quad_strip, grid_hidden = [], grids_num = 0, grid_size = 0,
     grid_mask = None, bm_vert_hidden = [], bm_vert_mask = [], bm_face_hidden = [],
     effects = []\<rparr>"

definition quad_strip_node :: PBVHNode where
  "quad_strip_node = \<lparr>node_addr = 7, unique_verts = [0, 1, 2, 3, 4, 5],
     node_verts = [0, 1, 2, 3, 4, 5], node_faces = [0, 1], grid_indices = [],
     bm_unique_verts = [], bm_other_verts = [], bm_faces = [],
     fully_hidden = False, update_visibility = False, rebuild_draw = False\<rparr>"

text \<open>
  The left node of the quad strip when the tree has two nodes: it owns the first quad
  and the vertices 0, 1, 3 and 4. The quad strip without the \<^verbatim>\<open>.hide_poly\<close> attribute.
\<close>

definition quad_strip_left_node :: PBVHNode where
  "quad_strip_left_node = \<lparr>node_addr = 7, unique_verts = [0, 1, 3, 4],
     node_verts = [0, 1, 3, 4], node_faces = [0], grid_indices = [],
     bm_unique_verts = [], bm_other_verts = [], bm_faces = [],
     fully_hidden = False, update_visibility = False, rebuild_draw = False\<rparr>"

definition quad_strip_object_without_hide_poly :: Object where
  "quad_strip_object_without_hide_poly = quad_strip_object\<lparr>mesh := quad_strip\<lparr>hide_poly := None\<rparr>\<rparr>"

text \<open>
  Three triangles A = (0, 1, 2), B = (0, 1, 3) and C = (2, 3, 4) on five vertices: every
  vertex of A is also a vertex of B or C. Vertex 3 is hidden, and with it B, C and the
  four edges at vertex 3.
\<close>

definition three_triangles :: Mesh where
  "three_triangles = \<lparr>verts_num = 5, faces = [(0, 3), (3, 3), (6, 3)],
     corner_verts = [0, 1, 2, 0, 1, 3, 2, 3, 4], corner_edges = [0, 1, 2, 0, 3, 4, 5, 6, 7],
     edges = [(0, 1), (1, 2), (2, 0), (1, 3), (3, 0), (2, 3), (3, 4), (4, 2)],
     hide_vert = Some [False, False, False, True, False],
     hide_edge = Some [False, False, False, True, True, True, True, False],
     hide_poly = Some [False, True, True], sculpt_mask = None\<rparr>"

definition three_triangles_object :: Object where
  "three_triangles_object = \<lparr>mesh = three_triangles, grid_hidden = [], grids_num = 0,
     grid_size = 0, grid_mask = None, bm_vert_hidden = [], bm_vert_mask = [],
     bm_face_hidden = [], effects = []\<rparr>"

definition three_triangles_node :: PBVHNode where
  "three_triangles_node = \<lparr>node_addr = 7, unique_verts = [0, 1, 2, 3, 4],
     node_verts = [0, 1, 2, 3, 4], node_faces = [0, 1, 2], grid_indices = [],
     bm_unique_verts = [], bm_other_verts = [], bm_faces = [],
     fully_hidden = False, update_visibility = False, rebuild_draw = False\<rparr>"

text \<open>One grid of two by two samples, owned by one node.\<close>

definition grid_object :: "bool list list \<Rightarrow> Object" where
  "grid_object gh = \<lparr>mesh = empty_mesh, grid_hidden = gh, grids_num = 1, grid_size = 2,
     grid_mask = Some [[0, 0, 0, 0]], bm_vert_hidden = [], bm_vert_mask = [],
     bm_face_hidden = [], effects = []\<rparr>"

definition grid_node :: PBVHNode where
  "grid_node = \<lparr>node_addr = 7, unique_verts = [], node_verts = [], node_faces = [],
     grid_indices = [0], bm_unique_verts = [], bm_other_verts = [], bm_faces = [],
     fully_hidden = False, update_visibility = False, rebuild_draw = False\<rparr>"

text \<open>A dynamic topology mesh of one vertex with mask 0, owned by one node.\<close>

definition bm_object :: "bool \<Rightarrow> Object" where
  "bm_object hidden = \<lparr>mesh = empty_mesh, grid_hidden = [], grids_num = 0, grid_size = 0,
     grid_mask = None, bm_vert_hidden = [hidden], bm_vert_mask = [0], bm_face_hidden = [],
     effects = []\<rparr>"

definition bm_node :: "bool \<Rightarrow> PBVHNode" where
  "bm_node hidden = \<lparr>node_addr = 7, unique_verts = [], node_verts = [], node_faces = [],
     grid_indices = [], bm_unique_verts = [0], bm_other_verts = [], bm_faces = [],
     fully_hidden = hidden, update_visibility = False, rebuild_draw = False\<rparr>"

section \<open>Properties\<close>

subsection \<open>\<^verbatim>\<open>node_visible_verts\<close>\<close>

lemma copy_if_filter:
  assumes "list_all (\<lambda>v. v < length hv) vs"
    and "pos + length vs \<le> length out"
  shows "copy_if vs (\<lambda>vert. map_option Not (span_get hv vert)) out pos =
    Some (take pos out @ filter (\<lambda>v. \<not> hv ! v) vs
            @ drop (pos + length (filter (\<lambda>v. \<not> hv ! v) vs)) out,
          pos + length (filter (\<lambda>v. \<not> hv ! v) vs))"
  using assms
proof (induction vs arbitrary: out pos)
  case Nil
  then show ?case by simp
next
  case (Cons v vs)
  show ?case
  proof (cases "hv ! v")
    case True
    with Cons show ?thesis by (simp add: span_get_def)
  next
    case False
    have len: "Suc pos + length vs \<le> length (out[pos := v])" using Cons.prems by simp
    have all: "list_all (\<lambda>v. v < length hv) vs" using Cons.prems by simp
    have pos: "pos < length out" using Cons.prems by simp
    have tk: "take (Suc pos) (out[pos := v]) = take pos out @ [v]"
      using pos by (simp add: take_Suc_conv_app_nth)
    show ?thesis
      using Cons.IH [OF all len] False Cons.prems tk
      by (simp add: span_get_def)
  qed
qed

text \<open>
  C10. \<^verbatim>\<open>node_visible_verts\<close> returns the empty span for a fully hidden node whatever
  \<open>hide_vert\<close> is (even one too short to be read); for a node that is not fully hidden
  it returns all of the node's unique vertices when \<open>hide_vert\<close> is empty, and otherwise
  the unique vertices whose \<open>hide_vert\<close> entry is false, in their original order. The
  content of the scratch vector \<open>indices\<close> does not matter.
\<close>

theorem node_visible_verts_spec:
  "(fully_hidden node \<longrightarrow> node_visible_verts node hv indices = Some [])
   \<and> (\<not> fully_hidden node \<and> hv = [] \<longrightarrow>
        node_visible_verts node hv indices = Some (unique_verts node))
   \<and> (\<not> fully_hidden node \<and> hv \<noteq> []
        \<and> list_all (\<lambda>v. v < length hv) (unique_verts node) \<longrightarrow>
        node_visible_verts node hv indices =
          Some (filter (\<lambda>v. \<not> hv ! v) (unique_verts node)))"
proof -
  have "node_visible_verts node hv indices =
          Some (filter (\<lambda>v. \<not> hv ! v) (unique_verts node))"
    if nf: "\<not> fully_hidden node" and ne: "hv \<noteq> []"
      and ok: "list_all (\<lambda>v. v < length hv) (unique_verts node)"
  proof -
    let ?vs = "unique_verts node"
    let ?out = "vector_resize indices (length ?vs)"
    have len: "length ?out = length ?vs" by (simp add: vector_resize_def)
    have le: "0 + length ?vs \<le> length ?out" using len by simp
    have flen: "length (filter (\<lambda>v. \<not> hv ! v) ?vs) \<le> length ?vs" by simp
    show ?thesis
      using copy_if_filter [OF ok le] nf ne flen len
      by (simp add: node_visible_verts_def Let_def vector_resize_def)
  qed
  then show ?thesis by (simp add: node_visible_verts_def)
qed

theorem node_visible_verts_spec_witness:
  "node_visible_verts
      \<lparr>node_addr = 0, unique_verts = [2, 0, 3], node_verts = [2, 0, 3, 1], node_faces = [],
       grid_indices = [], bm_unique_verts = [], bm_other_verts = [], bm_faces = [],
       fully_hidden = True, update_visibility = False, rebuild_draw = False\<rparr>
      [True] [7] = Some []
   \<and> node_visible_verts
      \<lparr>node_addr = 0, unique_verts = [2, 0, 3], node_verts = [2, 0, 3, 1], node_faces = [],
       grid_indices = [], bm_unique_verts = [], bm_other_verts = [], bm_faces = [],
       fully_hidden = False, update_visibility = False, rebuild_draw = False\<rparr>
      [] [7] = Some [2, 0, 3]
   \<and> node_visible_verts
      \<lparr>node_addr = 0, unique_verts = [2, 0, 3], node_verts = [2, 0, 3, 1], node_faces = [],
       grid_indices = [], bm_unique_verts = [], bm_other_verts = [], bm_faces = [],
       fully_hidden = False, update_visibility = False, rebuild_draw = False\<rparr>
      [True, False, False, False] [7] = Some [2, 3]"
  using node_visible_verts_spec [of
      "\<lparr>node_addr = 0, unique_verts = [2, 0, 3], node_verts = [2, 0, 3, 1], node_faces = [],
       grid_indices = [], bm_unique_verts = [], bm_other_verts = [], bm_faces = [],
       fully_hidden = True, update_visibility = False, rebuild_draw = False\<rparr>" "[True]" "[7]"]
    node_visible_verts_spec [of
      "\<lparr>node_addr = 0, unique_verts = [2, 0, 3], node_verts = [2, 0, 3, 1], node_faces = [],
       grid_indices = [], bm_unique_verts = [], bm_other_verts = [], bm_faces = [],
       fully_hidden = False, update_visibility = False, rebuild_draw = False\<rparr>" "[]" "[7]"]
    node_visible_verts_spec [of
      "\<lparr>node_addr = 0, unique_verts = [2, 0, 3], node_verts = [2, 0, 3, 1], node_faces = [],
       grid_indices = [], bm_unique_verts = [], bm_other_verts = [], bm_faces = [],
       fully_hidden = False, update_visibility = False, rebuild_draw = False\<rparr>"
      "[True, False, False, False]" "[7]"]
  by simp

subsection \<open>Loops as maps and filters\<close>

lemma upt_0_2: "[0..<2] = [0, Suc 0]"
  by code_simp

lemma filter_False_conv: "(\<And>x. x \<in> set xs \<Longrightarrow> \<not> P x) \<Longrightarrow> filter P xs = []"
  by (induction xs) auto

lemma mesh_show_all_fold:
  "fold (mesh_show_all_step hv) nodes (ob, dn) =
     (ob\<lparr>effects := effects ob @ map (\<lambda>n. UndoPush (node_addr n) HideVert)
                         (filter (\<lambda>n. list_ex (\<lambda>i. hv ! i) (node_verts n)) nodes)\<rparr>,
      dn @ map (\<lambda>n. if list_ex (\<lambda>i. hv ! i) (node_verts n) then n\<lparr>rebuild_draw := True\<rparr> else n) nodes)"
  by (induction nodes arbitrary: ob dn) (simp_all add: mesh_show_all_step_def push_node_def)

lemma grids_show_all_fold:
  "fold (grids_show_all_step gh) nodes (ob, ac, dn) =
     (ob\<lparr>effects := effects ob @ map (\<lambda>n. UndoPush (node_addr n) HideVert)
                         (filter (\<lambda>n. list_ex (\<lambda>i. list_ex (\<lambda>b. b) (gh ! i)) (grid_indices n)) nodes)\<rparr>,
      ac \<or> list_ex (\<lambda>n. list_ex (\<lambda>i. list_ex (\<lambda>b. b) (gh ! i)) (grid_indices n)) nodes,
      dn @ map (\<lambda>n. if list_ex (\<lambda>i. list_ex (\<lambda>b. b) (gh ! i)) (grid_indices n)
                     then n\<lparr>rebuild_draw := True\<rparr> else n) nodes)"
  by (induction nodes arbitrary: ob ac dn) (simp_all add: grids_show_all_step_def push_node_def)

lemma mesh_hide_vert_flush_hide_vert: "hide_vert (mesh_hide_vert_flush m) = hide_vert m"
  by (simp add: mesh_hide_vert_flush_def Let_def)

lemma mesh_show_all_hide_vert: "hide_vert (mesh (fst (mesh_show_all ob nodes))) = None"
  by (simp add: mesh_show_all_def mesh_show_all_fold mesh_hide_vert_flush_hide_vert
      split: option.splits prod.splits)

subsection \<open>The predicate-driven update\<close>

text \<open>
  The polygon mesh and grid paths of the predicate-driven update compare first: when
  the callback leaves the flags of every node as they are, nothing is pushed to the
  undo log and no node is marked (the attribute or bit structure is only allocated).
\<close>

lemma vert_hide_update_without_change:
  assumes "list_all (\<lambda>node. indexed_data_equal (lookup_or_default (hide_vert (mesh ob)) (verts_num (mesh ob)))
                (unique_verts node)
                (calc_hide (unique_verts node)
                   (gather (lookup_or_default (hide_vert (mesh ob)) (verts_num (mesh ob))) (unique_verts node))))
             nodes"
  shows "vert_hide_update ob nodes calc_hide
           = (ob\<lparr>mesh := (mesh ob)\<lparr>hide_vert :=
                  Some (lookup_or_default (hide_vert (mesh ob)) (verts_num (mesh ob)))\<rparr>\<rparr>, nodes)"
proof -
  have "fold (vert_hide_update_step calc_hide) nodes (hv, ac, ob) = (hv, ac, ob)"
    if "list_all (\<lambda>node. indexed_data_equal hv (unique_verts node)
                (calc_hide (unique_verts node) (gather hv (unique_verts node)))) nodes"
    for hv ac
    using that by (induction nodes) (simp_all add: vert_hide_update_step_def Let_def)
  from this [OF assms] show ?thesis by (simp add: vert_hide_update_def Let_def)
qed

lemma grid_hide_update_without_change:
  assumes "list_all (\<lambda>node. list_all (\<lambda>g. calc_hide g (grid_hidden (grid_hidden_ensure ob) ! g)
                                          = grid_hidden (grid_hidden_ensure ob) ! g)
                               (grid_indices node)) nodes"
  shows "grid_hide_update ob nodes calc_hide = (grid_hidden_ensure ob, nodes)"
proof -
  have "fold (grid_hide_update_step calc_hide) nodes (ob', ac, dn) = (ob', ac, dn @ nodes)"
    if "list_all (\<lambda>node. list_all (\<lambda>g. calc_hide g (grid_hidden ob' ! g) = grid_hidden ob' ! g)
                               (grid_indices node)) nodes"
    for ob' ac dn
    using that
  proof (induction nodes arbitrary: dn)
    case Nil
    then show ?case by simp
  next
    case (Cons node nodes)
    have "list_all (\<lambda>i. grid_hidden ob' ! (grid_indices node ! i)
              = map (\<lambda>g. calc_hide g (grid_hidden ob' ! g)) (grid_indices node) ! i)
            [0..<length (grid_indices node)]"
      using Cons.prems by (simp add: list_all_iff)
    then have "grid_hide_update_step calc_hide node (ob', ac, dn) = (ob', ac, dn @ [node])"
      by (simp add: grid_hide_update_step_def Let_def)
    then show ?case using Cons by simp
  qed
  from this [OF assms, of False "[]"] show ?thesis by (simp add: grid_hide_update_def)
qed

text \<open>
  C1, at the failing input. The node owns one vertex, which is already hidden; the
  action is Hide and the predicate accepts every vertex. No hidden flag changes (the
  vertex and face flags of the object are what they were), and still the node is pushed
  to the undo log and marked for a redraw rebuild. \<^verbatim>\<open>vert_hide_update\<close> and
  \<^verbatim>\<open>grid_hide_update\<close> compare the new flags with the old ones first;
  \<^verbatim>\<open>partialvis_update_bmesh_nodes\<close> pushes before it looks, and sets \<^verbatim>\<open>any_changed\<close> on
  a match of the predicate.
\<close>

theorem bmesh_update_pushes_and_marks_without_change:
  "partialvis_update_bmesh_nodes is_face_hidden (bm_object True) [bm_node True] Hide (\<lambda>v. True)
     = ((bm_object True)\<lparr>effects := [UndoPush 7 HideVert]\<rparr>,
        [(bm_node True)\<lparr>rebuild_draw := True\<rparr>])"
  by (simp add: partialvis_update_bmesh_nodes_def partialvis_update_bmesh_node_def
      partialvis_update_bmesh_verts_def partialvis_update_bmesh_faces_def push_node_def
      bm_object_def bm_node_def)

subsection \<open>Masked hide\<close>

text \<open>
  Masked hide with a mask that is zero everywhere is such a call on the polygon mesh
  and on grids.
\<close>

lemma indexed_data_equal_gather: "indexed_data_equal xs idx (gather xs idx)"
  by (simp add: indexed_data_equal_def gather_def list_all_iff)

lemma fold_skip: "(\<And>x h. x \<in> set xs \<Longrightarrow> f x h = h) \<Longrightarrow> fold f xs h = h"
  by (induction xs arbitrary: h) simp_all

lemma masked_calc_hide_zero:
  "list_all (\<lambda>v. mask_span ! v = 0) verts \<Longrightarrow> masked_calc_hide mask_span val verts hide = hide"
  unfolding masked_calc_hide_def by (rule fold_skip) (simp add: list_all_iff)

lemma mesh_masked_hide_zero_mask:
  assumes "sculpt_mask (mesh ob) = Some mask_span" and "mask_span \<noteq> []"
    and "list_all (\<lambda>node. list_all (\<lambda>v. mask_span ! v = 0) (unique_verts node)) nodes"
  shows "partialvis_masked_update_mesh ob Hide nodes
           = (ob\<lparr>mesh := (mesh ob)\<lparr>hide_vert :=
                  Some (lookup_or_default (hide_vert (mesh ob)) (verts_num (mesh ob)))\<rparr>\<rparr>, nodes)"
proof -
  have "list_all (\<lambda>node. indexed_data_equal (lookup_or_default (hide_vert (mesh ob)) (verts_num (mesh ob)))
                (unique_verts node)
                (masked_calc_hide mask_span (action_to_hide Hide) (unique_verts node)
                   (gather (lookup_or_default (hide_vert (mesh ob)) (verts_num (mesh ob))) (unique_verts node))))
             nodes"
    using assms(3) by (simp add: list_all_iff masked_calc_hide_zero indexed_data_equal_gather)
  then have "vert_hide_update ob nodes (masked_calc_hide mask_span (action_to_hide Hide))
           = (ob\<lparr>mesh := (mesh ob)\<lparr>hide_vert :=
                  Some (lookup_or_default (hide_vert (mesh ob)) (verts_num (mesh ob)))\<rparr>\<rparr>, nodes)"
    by (rule vert_hide_update_without_change
          [of ob "masked_calc_hide mask_span (action_to_hide Hide)" nodes])
  then show ?thesis using assms(1,2) by (simp add: partialvis_masked_update_mesh_def)
qed

lemma grids_masked_calc_hide_zero:
  assumes "list_all (\<lambda>x. x = 0) (masks ! grid_index)"
    and "gsize * gsize \<le> length (masks ! grid_index)"
  shows "grids_masked_calc_hide masks gsize val grid_index hide = hide"
proof -
  have z: "masks ! grid_index ! (y * gsize + x) = 0" if "x < gsize" "y < gsize" for x y
  proof -
    have "y * gsize + x < Suc y * gsize" using that by simp
    also have "\<dots> \<le> gsize * gsize" using that(2) by (intro mult_le_mono1) simp
    finally have "y * gsize + x < length (masks ! grid_index)" using assms(2) by simp
    then show ?thesis using assms(1) by (simp add: list_all_iff)
  qed
  have inner: "fold (\<lambda>x h'. if masks ! grid_index ! (y * gsize + x) > 0.5
                                then h'[y * gsize + x := val] else h') [0..<gsize] h = h"
    if "y < gsize" for y h
    using that z by (intro fold_skip) simp
  show ?thesis
    unfolding grids_masked_calc_hide_def
  proof (rule fold_skip)
    fix y h assume "y \<in> set [0..<gsize]"
    then have "y < gsize" by simp
    then show "fold (\<lambda>x h'. if masks ! grid_index ! (y * gsize + x) > 0.5
                                then h'[y * gsize + x := val] else h') [0..<gsize] h = h"
      by (rule inner)
  qed
qed

lemma grids_masked_hide_zero_mask:
  assumes "grid_mask ob = Some masks"
    and "list_all (\<lambda>node. list_all (\<lambda>g. list_all (\<lambda>x. x = 0) (masks ! g)
                                    \<and> grid_size ob * grid_size ob \<le> length (masks ! g))
                               (grid_indices node)) nodes"
  shows "partialvis_masked_update_grids ob Hide nodes = (grid_hidden_ensure ob, nodes)"
proof -
  have "list_all (\<lambda>node. list_all (\<lambda>g.
            grids_masked_calc_hide masks (grid_size ob) (action_to_hide Hide) g
              (grid_hidden (grid_hidden_ensure ob) ! g) = grid_hidden (grid_hidden_ensure ob) ! g)
          (grid_indices node)) nodes"
    using assms(2) by (simp add: list_all_iff grids_masked_calc_hide_zero)
  then have "grid_hide_update ob nodes
               (grids_masked_calc_hide masks (grid_size ob) (action_to_hide Hide))
             = (grid_hidden_ensure ob, nodes)"
    by (rule grid_hide_update_without_change
          [of "grids_masked_calc_hide masks (grid_size ob) (action_to_hide Hide)" ob nodes])
  then show ?thesis using assms(1) by (simp add: partialvis_masked_update_grids_def)
qed

text \<open>
  C7, at the failing input. The dynamic topology mesh has one visible vertex whose mask
  is 0. Masked hide changes no flag and marks nothing, and still pushes the node to the
  undo log: \<^verbatim>\<open>partialvis_update_bmesh_nodes\<close> pushes every node of the node set before it
  tests a vertex.
\<close>

theorem bmesh_masked_hide_zero_mask_pushes_undo:
  "partialvis_masked_update_bmesh is_face_hidden (bm_object False) Hide [bm_node False]
     = ((bm_object False)\<lparr>effects := [UndoPush 7 HideVert]\<rparr>, [bm_node False])"
  by (simp add: partialvis_masked_update_bmesh_def partialvis_update_bmesh_nodes_def
      partialvis_update_bmesh_node_def partialvis_update_bmesh_verts_def
      partialvis_update_bmesh_faces_def push_node_def bm_object_def bm_node_def)

subsection \<open>Grow and shrink on grids\<close>

text \<open>
  The polygon mesh path of grow and shrink pushes a node only when one of its vertices
  changed (\<^verbatim>\<open>update_undo_state\<close>): on the quad strip with nothing hidden, shrink changes
  nothing, pushes nothing and marks nothing.
\<close>

lemma mesh_grow_shrink_without_change:
  "grow_shrink_visibility_mesh
      (quad_strip_object\<lparr>mesh := mesh_hide_vert_flush (quad_strip\<lparr>hide_vert := Some (replicate 6 False)\<rparr>)\<rparr>)
      [quad_strip_node] Hide 1
   = (quad_strip_object\<lparr>mesh := mesh_hide_vert_flush (quad_strip\<lparr>hide_vert := Some (replicate 6 False)\<rparr>)\<rparr>,
      [quad_strip_node])"
  by code_simp

text \<open>
  C2, at the failing input. One grid with all four bits clear, one iteration of Hide
  (shrink): no sample is at the target value, so no bit changes whatever the neighbor
  query returns. Still the node is pushed to the undo log and marked for a visibility
  update, and the multires and synchronisation calls are made: \<^verbatim>\<open>node_changed\<close> is set
  for every node in every iteration.
\<close>

theorem grid_grow_shrink_without_change_pushes_and_marks:
  "grow_shrink_visibility_grid neighbors (grid_object [[False, False, False, False]])
       [grid_node] Hide 1
     = ((grid_object [[False, False, False, False]])
          \<lparr>effects := [UndoPush 7 HideVert, MultiresHiddenModified, SyncVisibilityFromVerts]\<rparr>,
        [grid_node\<lparr>update_visibility := True\<rparr>])"
  by (simp add: grow_shrink_visibility_grid_def grow_shrink_grid_iteration_def
      grow_shrink_grid_node_def grow_shrink_grid_elem_def grid_hidden_ensure_def
      action_to_hide_def bits_read_buffer_def bits_write_buffer_def bits_set_write_buffer_def
      push_node_def add_effect_def node_update_visibility_grids_def CCG_grid_xy_to_index_def
      grid_object_def grid_node_def upt_0_2 smod_int_alt_def)

subsection \<open>Show all\<close>

text \<open>
  Show-all twice on a polygon mesh or on grids: the second call returns the object
  and the nodes as the first call left them. The object holds every visibility
  attribute and the effects, so no attribute differs and nothing is pushed to the undo
  log by the second call. This holds for the operator's path
  (\<^verbatim>\<open>partialvis_all_update_mesh\<close> with Show), for \<^verbatim>\<open>mesh_show_all\<close> called directly and
  for \<^verbatim>\<open>grids_show_all\<close>.
\<close>

theorem show_all_idempotent:
  "(case partialvis_all_update_mesh ob Show nodes of
      (ob1, nodes1) \<Rightarrow> partialvis_all_update_mesh ob1 Show nodes1 = (ob1, nodes1))
   \<and> (case mesh_show_all ob nodes of
      (ob1, nodes1) \<Rightarrow> mesh_show_all ob1 nodes1 = (ob1, nodes1))
   \<and> (case grids_show_all ob nodes of
      (ob1, nodes1) \<Rightarrow> grids_show_all ob1 nodes1 = (ob1, nodes1))"
proof (intro conjI)
  show "case partialvis_all_update_mesh ob Show nodes of
      (ob1, nodes1) \<Rightarrow> partialvis_all_update_mesh ob1 Show nodes1 = (ob1, nodes1)"
  proof (cases "hide_vert (mesh ob)")
    case None
    then show ?thesis by (simp add: partialvis_all_update_mesh_def)
  next
    case (Some hv)
    obtain ob1 nodes1 where r: "mesh_show_all ob nodes = (ob1, nodes1)" by force
    have "hide_vert (mesh ob1) = None" using mesh_show_all_hide_vert [of ob nodes] r by simp
    then show ?thesis using Some r by (simp add: partialvis_all_update_mesh_def)
  qed
next
  obtain ob1 nodes1 where r: "mesh_show_all ob nodes = (ob1, nodes1)" by force
  have hv: "hide_vert (mesh ob1) = None" using mesh_show_all_hide_vert [of ob nodes] r by simp
  have m: "mesh_hide_vert_flush ((mesh ob1)\<lparr>hide_vert := None\<rparr>) = mesh ob1"
    using r
    by (auto simp add: mesh_show_all_def mesh_show_all_fold mesh_hide_vert_flush_def Let_def
        split: option.splits prod.splits)
  have n: "map (\<lambda>node. node\<lparr>fully_hidden := False\<rparr>) nodes1 = nodes1"
    using r by (auto simp add: mesh_show_all_def split: option.splits prod.splits)
  have "mesh_show_all ob1 nodes1 = (ob1, nodes1)"
    using hv m n by (simp add: mesh_show_all_def)
  then show "case mesh_show_all ob nodes of
      (ob1, nodes1) \<Rightarrow> mesh_show_all ob1 nodes1 = (ob1, nodes1)" using r by simp
next
  let ?P = "\<lambda>n. list_ex (\<lambda>i. list_ex (\<lambda>b. b) (grid_hidden ob ! i)) (grid_indices n)"
  show "case grids_show_all ob nodes of
      (ob1, nodes1) \<Rightarrow> grids_show_all ob1 nodes1 = (ob1, nodes1)"
  proof (cases "grid_hidden ob \<noteq> [] \<and> list_ex ?P nodes")
    case True
    then show ?thesis
      by (simp add: grids_show_all_def grids_show_all_fold add_effect_def grid_hidden_free_def)
  next
    case False
    have "grids_show_all ob nodes = (ob, nodes)"
    proof (cases "grid_hidden ob = []")
      case True
      then show ?thesis by (simp add: grids_show_all_def)
    next
      case ne: False
      with False have no: "\<not> list_ex ?P nodes" by simp
      then have f: "filter ?P nodes = []" by (intro filter_False_conv) (auto simp: list_ex_iff)
      have mp: "map (\<lambda>n. if ?P n then n\<lparr>rebuild_draw := True\<rparr> else n) nodes = nodes"
        using no by (intro map_idI) (auto simp: list_ex_iff)
      show ?thesis using ne no f mp by (simp add: grids_show_all_def grids_show_all_fold)
    qed
    then show ?thesis by simp
  qed
qed

theorem show_all_idempotent_witness:
  "mesh_show_all quad_strip_object [quad_strip_node]
     = (quad_strip_object\<lparr>mesh := quad_strip\<lparr>hide_vert := None, hide_edge := Some (replicate 7 False),
                                              hide_poly := Some [False, False]\<rparr>,
                           effects := [UndoPush 7 HideVert]\<rparr>,
        [quad_strip_node\<lparr>rebuild_draw := True\<rparr>])
   \<and> grids_show_all (grid_object [[True, True, True, True]]) [grid_node]
     = ((grid_object [])\<lparr>effects := [UndoPush 7 HideVert, SyncVisibilityFromVerts, MultiresHiddenModified]\<rparr>,
        [grid_node\<lparr>rebuild_draw := True\<rparr>])
   \<and> partialvis_all_update_mesh (fst (partialvis_all_update_mesh quad_strip_object Show [quad_strip_node])) Show
        (snd (partialvis_all_update_mesh quad_strip_object Show [quad_strip_node]))
     = partialvis_all_update_mesh quad_strip_object Show [quad_strip_node]
   \<and> grids_show_all (fst (grids_show_all (grid_object [[True, True, True, True]]) [grid_node]))
        (snd (grids_show_all (grid_object [[True, True, True, True]]) [grid_node]))
     = grids_show_all (grid_object [[True, True, True, True]]) [grid_node]"
  using show_all_idempotent [of quad_strip_object "[quad_strip_node]"]
    show_all_idempotent [of "grid_object [[True, True, True, True]]" "[grid_node]"]
  by code_simp

text \<open>
  C6, at the failing input. For a dynamic topology object the show-all operator calls
  \<^verbatim>\<open>partialvis_all_update_bmesh\<close> with Show. On the object with one hidden vertex the
  first call shows the vertex and pushes the node. The second call changes no flag
  and no node, and pushes the node to the undo log again:
  \<^verbatim>\<open>partialvis_update_bmesh_nodes\<close> pushes every node before it tests a vertex. The
  polygon mesh and grid paths push nothing on the second call.
\<close>

theorem bmesh_show_all_twice_pushes_undo_again:
  "partialvis_all_update_bmesh is_face_hidden (bm_object True) Show [bm_node True]
     = ((bm_object False)\<lparr>effects := [UndoPush 7 HideVert]\<rparr>,
        [(bm_node False)\<lparr>rebuild_draw := True\<rparr>])
   \<and> partialvis_all_update_bmesh is_face_hidden
         ((bm_object False)\<lparr>effects := [UndoPush 7 HideVert]\<rparr>) Show
         [(bm_node False)\<lparr>rebuild_draw := True\<rparr>]
     = ((bm_object False)\<lparr>effects := [UndoPush 7 HideVert, UndoPush 7 HideVert]\<rparr>,
        [(bm_node False)\<lparr>rebuild_draw := True\<rparr>])"
  by (simp add: partialvis_all_update_bmesh_def partialvis_update_bmesh_nodes_def
      partialvis_update_bmesh_node_def partialvis_update_bmesh_verts_def
      partialvis_update_bmesh_faces_def push_node_def bm_object_def bm_node_def)

text \<open>
  C9. \<^verbatim>\<open>mesh_show_all\<close> leaves the mesh without the per-vertex hidden attribute (it is
  removed, not filled with false), and \<^verbatim>\<open>grids_show_all\<close> leaves the grid-hidden
  structure empty (freed) whenever some bit was set, the nodes being those of the whole
  tree, so that every grid belongs to one of them.
\<close>

theorem show_all_deallocates:
  "hide_vert (mesh (fst (mesh_show_all ob nodes))) = None
   \<and> (list_ex (list_ex (\<lambda>b. b)) (grid_hidden ob)
        \<and> list_all (\<lambda>g. list_ex (\<lambda>node. g \<in> set (grid_indices node)) nodes)
             [0..<length (grid_hidden ob)]
      \<longrightarrow> grid_hidden (fst (grids_show_all ob nodes)) = [])"
proof (intro conjI impI)
  show "hide_vert (mesh (fst (mesh_show_all ob nodes))) = None" by (rule mesh_show_all_hide_vert)
next
  assume a: "list_ex (list_ex (\<lambda>b. b)) (grid_hidden ob)
        \<and> list_all (\<lambda>g. list_ex (\<lambda>node. g \<in> set (grid_indices node)) nodes)
             [0..<length (grid_hidden ob)]"
  then obtain bits where "bits \<in> set (grid_hidden ob)" "list_ex (\<lambda>b. b) bits"
    by (auto simp: list_ex_iff)
  then obtain g where g: "g < length (grid_hidden ob)" "list_ex (\<lambda>b. b) (grid_hidden ob ! g)"
    by (auto simp: in_set_conv_nth)
  from a have "\<forall>g\<in>set [0..<length (grid_hidden ob)]. \<exists>node\<in>set nodes. g \<in> set (grid_indices node)"
    by (simp add: list_all_iff list_ex_iff)
  with g(1) obtain node where "node \<in> set nodes" "g \<in> set (grid_indices node)"
    by fastforce
  with g have ex: "list_ex (\<lambda>n. list_ex (\<lambda>i. list_ex (\<lambda>b. b) (grid_hidden ob ! i)) (grid_indices n)) nodes"
    by (auto simp: list_ex_iff)
  have ne: "grid_hidden ob \<noteq> []" using g by auto
  show "grid_hidden (fst (grids_show_all ob nodes)) = []"
    using ex ne by (simp add: grids_show_all_def grids_show_all_fold add_effect_def grid_hidden_free_def)
qed

theorem show_all_deallocates_witness:
  "hide_vert (mesh (fst (mesh_show_all quad_strip_object [quad_strip_node]))) = None
   \<and> list_ex (list_ex (\<lambda>b. b)) (grid_hidden (grid_object [[True, True, True, True]]))
   \<and> list_all (\<lambda>g. list_ex (\<lambda>node. g \<in> set (grid_indices node)) [grid_node])
        [0..<length (grid_hidden (grid_object [[True, True, True, True]]))]
   \<and> grid_hidden (fst (grids_show_all (grid_object [[True, True, True, True]]) [grid_node])) = []"
  using show_all_deallocates [of quad_strip_object "[quad_strip_node]"]
    show_all_deallocates [of "grid_object [[True, True, True, True]]" "[grid_node]"]
  by (simp add: grid_object_def grid_node_def)

subsection \<open>Invert\<close>

lemma invert_fold:
  "fold invert_visibility_mesh_step nodes (ob, hp, dn) =
     (ob\<lparr>effects := effects ob @ map (\<lambda>n. UndoPush (node_addr n) HideFace) nodes\<rparr>,
      fold (\<lambda>face h. h[face := \<not> h ! face]) (concat (map node_faces nodes)) hp,
      dn @ map (\<lambda>n. n\<lparr>update_visibility := True\<rparr>) nodes)"
  by (induction nodes arbitrary: ob hp dn)
     (simp_all add: invert_visibility_mesh_step_def push_node_def)

lemma toggle_fold_length:
  "length (fold (\<lambda>face h. h[face := \<not> h ! face]) fs hp) = length hp"
  by (induction fs arbitrary: hp) simp_all

lemma toggle_fold_nth:
  "distinct fs \<Longrightarrow> f < length hp \<Longrightarrow>
     fold (\<lambda>face h. h[face := \<not> h ! face]) fs hp ! f = (if f \<in> set fs then \<not> hp ! f else hp ! f)"
proof (induction fs arbitrary: hp)
  case Nil
  then show ?case by simp
next
  case (Cons a fs)
  have d: "distinct fs" and na: "a \<notin> set fs" using Cons.prems by simp_all
  have l: "f < length (hp[a := \<not> hp ! a])" using Cons.prems by simp
  show ?case
  proof (cases "f = a")
    case True
    then show ?thesis using Cons.IH [OF d l] na Cons.prems(2) by simp
  next
    case False
    then show ?thesis using Cons.IH [OF d l] Cons.prems(2) by simp
  qed
qed

lemma toggle_fold_all:
  assumes "distinct fs" and "set fs = {0..<length hp}"
  shows "fold (\<lambda>face h. h[face := \<not> h ! face]) fs hp = map Not hp"
proof (rule nth_equalityI)
  show "length (fold (\<lambda>face h. h[face := \<not> h ! face]) fs hp) = length (map Not hp)"
    by (simp add: toggle_fold_length)
next
  fix i assume "i < length (fold (\<lambda>face h. h[face := \<not> h ! face]) fs hp)"
  then have i: "i < length hp" by (simp add: toggle_fold_length)
  then have "i \<in> set fs" using assms(2) by simp
  then show "fold (\<lambda>face h. h[face := \<not> h ! face]) fs hp ! i = map Not hp ! i"
    using toggle_fold_nth [OF assms(1) i] i by simp
qed

text \<open>
  C8. \<^verbatim>\<open>invert_visibility_mesh\<close> on the nodes of the whole tree (every face belongs to
  exactly one node): the \<^verbatim>\<open>.hide_poly\<close> value of every face after the call is the
  negation of its value before (an absent attribute reads as all false), and the mesh
  after the call is the face flush (\<^verbatim>\<open>mesh_hide_face_flush\<close>, which derives vertex and
  edge flags) applied to the mesh that carries the toggled face flags: the toggling
  comes first, the derivation of vertex and edge flags after it. In the example the
  faces {A = hidden, B = visible} become {A = visible, B = hidden}.
\<close>

theorem invert_visibility_mesh_toggles_faces:
  assumes "distinct (concat (map node_faces nodes))"
    and "set (concat (map node_faces nodes)) = {0..<length (faces (mesh ob))}"
    and "length (lookup_or_default (hide_poly (mesh ob)) (length (faces (mesh ob))))
           = length (faces (mesh ob))"
  shows "hide_poly (mesh (fst (invert_visibility_mesh ob nodes)))
           = Some (map Not (lookup_or_default (hide_poly (mesh ob)) (length (faces (mesh ob)))))
       \<and> mesh (fst (invert_visibility_mesh ob nodes))
           = mesh_hide_face_flush ((mesh ob)\<lparr>hide_poly :=
               Some (map Not (lookup_or_default (hide_poly (mesh ob)) (length (faces (mesh ob)))))\<rparr>)"
proof -
  let ?hp = "lookup_or_default (hide_poly (mesh ob)) (length (faces (mesh ob)))"
  have t: "fold (\<lambda>face h. h[face := \<not> h ! face]) (concat (map node_faces nodes)) ?hp = map Not ?hp"
    using assms by (intro toggle_fold_all) simp_all
  have m: "mesh (fst (invert_visibility_mesh ob nodes))
           = mesh_hide_face_flush ((mesh ob)\<lparr>hide_poly := Some (map Not ?hp)\<rparr>)"
    by (simp add: invert_visibility_mesh_def Let_def invert_fold t)
  have "hide_poly (mesh_hide_face_flush ((mesh ob)\<lparr>hide_poly := Some (map Not ?hp)\<rparr>))
          = Some (map Not ?hp)"
    by (simp add: mesh_hide_face_flush_def Let_def)
  with m show ?thesis by simp
qed

theorem invert_visibility_mesh_toggles_faces_witness:
  "distinct (concat (map node_faces [quad_strip_node]))
   \<and> set (concat (map node_faces [quad_strip_node])) = {0..<length (faces (mesh quad_strip_object))}
   \<and> lookup_or_default (hide_poly (mesh quad_strip_object))
         (length (faces (mesh quad_strip_object))) = [True, False]
   \<and> hide_poly (mesh (fst (invert_visibility_mesh quad_strip_object [quad_strip_node])))
         = Some [False, True]
   \<and> hide_vert (mesh (fst (invert_visibility_mesh quad_strip_object [quad_strip_node])))
         = Some [False, False, True, False, False, True]"
  using invert_visibility_mesh_toggles_faces [of "[quad_strip_node]" quad_strip_object]
  by (simp add: quad_strip_object_def quad_strip_node_def quad_strip_def lookup_or_default_def
      mesh_hide_face_flush_def fill_indices_def slice_def atLeast0LessThan lessThan_Suc insert_commute
      numeral_2_eq_2)

subsection \<open>Grow and shrink on the polygon mesh\<close>

lemma upt_0_3: "[0..<3] = [0, Suc 0, Suc (Suc 0)]"
  by code_simp

lemma fold_const_writes_length:
  "length (fold (\<lambda>c wb. if P c then wb else (wb[a c := val])[b c := val]) cs w) = length w"
  by (induction cs arbitrary: w) simp_all

lemma two_const_writes_nth:
  "v < length w \<Longrightarrow> (w[x := val])[y := val] ! v = (if x = v \<or> y = v then val else w ! v)"
  by (cases "y = v"; cases "x = v") simp_all

lemma fold_const_writes_nth:
  "v < length w \<Longrightarrow>
   fold (\<lambda>c wb. if P c then wb else (wb[a c := val])[b c := val]) cs w ! v
     = (if list_ex (\<lambda>c. \<not> P c \<and> (a c = v \<or> b c = v)) cs then val else w ! v)"
proof (induction cs arbitrary: w)
  case Nil
  then show ?case by simp
next
  case (Cons c cs)
  show ?case
  proof (cases "P c")
    case True
    then show ?thesis using Cons.IH [OF Cons.prems] by simp
  next
    case False
    have l: "v < length ((w[a c := val])[b c := val])" using Cons.prems by simp
    show ?thesis
      using Cons.IH [OF l] False two_const_writes_nth [OF Cons.prems, of "a c" val "b c"]
      by auto
  qed
qed

lemma affect_visibility_mesh_length:
  "length (affect_visibility_mesh val face cverts rbuf wbuf) = length wbuf"
  unfolding affect_visibility_mesh_def by (rule fold_const_writes_length)

lemma affect_visibility_mesh_nth:
  "v < length wbuf \<Longrightarrow>
   affect_visibility_mesh val face cverts rbuf wbuf ! v
     = (if corner_propagates face cverts rbuf val v then val else wbuf ! v)"
  unfolding affect_visibility_mesh_def corner_propagates_def
  by (simp add: fold_const_writes_nth)

lemma propagate_faces_eq:
  "propagate_faces fcs cverts hp action rbuf wbuf =
     fold (\<lambda>face_index wb.
             if \<not> hp ! face_index then wb
             else affect_visibility_mesh (action_to_hide action) (fcs ! face_index) cverts rbuf wb)
       [0..<length fcs] wbuf"
proof -
  have "(\<lambda>face_index wb.
             if \<not> hp ! face_index then wb
             else
               let face = fcs ! face_index in
               if action = Hide then affect_visibility_mesh True face cverts rbuf wb
               else affect_visibility_mesh False face cverts rbuf wb)
        = (\<lambda>face_index wb.
             if \<not> hp ! face_index then wb
             else affect_visibility_mesh (action_to_hide action) (fcs ! face_index) cverts rbuf wb)"
    by (intro ext) (simp add: action_to_hide_def Let_def)
  then show ?thesis by (simp add: propagate_faces_def)
qed

lemma fold_faces_length:
  "length (fold (\<lambda>f wb. if \<not> hp ! f then wb
             else affect_visibility_mesh val (fcs ! f) cverts rbuf wb) fs w) = length w"
  by (induction fs arbitrary: w) (simp_all add: affect_visibility_mesh_length)

lemma fold_faces_nth:
  "v < length w \<Longrightarrow>
   fold (\<lambda>f wb. if \<not> hp ! f then wb
             else affect_visibility_mesh val (fcs ! f) cverts rbuf wb) fs w ! v
     = (if list_ex (\<lambda>f. hp ! f \<and> corner_propagates (fcs ! f) cverts rbuf val v) fs
        then val else w ! v)"
proof (induction fs arbitrary: w)
  case Nil
  then show ?case by simp
next
  case (Cons f fs)
  show ?case
  proof (cases "hp ! f")
    case False
    then show ?thesis using Cons.IH [OF Cons.prems] by simp
  next
    case True
    have l: "v < length (affect_visibility_mesh val (fcs ! f) cverts rbuf w)"
      using Cons.prems by (simp add: affect_visibility_mesh_length)
    show ?thesis
      using Cons.IH [OF l] True affect_visibility_mesh_nth [OF Cons.prems, of val "fcs ! f" cverts rbuf]
      by simp
  qed
qed

text \<open>
  C4, as the claim states it, fails: on one hidden triangle with vertex 0 hidden and
  action Show the code processes the (hidden) face and shows vertex 0, whereas a loop
  that processes the faces whose flag equals the hide value of Show (the visible
  faces) leaves the buffer as it is.
\<close>

theorem propagate_faces_show_processes_hidden_face:
  "propagate_faces [(0, 3)] [0, 1, 2] [True] Show [True, False, False] [True, False, False]
     = [False, False, False]
   \<and> propagate_faces_as_claimed [(0, 3)] [0, 1, 2] [True] Show [True, False, False]
       [True, False, False] = [True, False, False]
   \<and> propagate_faces [(0, 3)] [0, 1, 2] [True] Show [True, False, False] [True, False, False]
     \<noteq> propagate_faces_as_claimed [(0, 3)] [0, 1, 2] [True] Show [True, False, False]
         [True, False, False]"
  by (simp add: propagate_faces_def propagate_faces_as_claimed_def affect_visibility_mesh_def
       action_to_hide_def face_corner_prev_def face_corner_next_def upt_0_3)

text \<open>
  The face loop on a given \<^verbatim>\<open>.hide_poly\<close> span processes exactly the faces whose flag
  in the span is set, for Hide and for Show alike. An entry of the write buffer
  becomes the target value when some corner of a hidden face has its vertex at the
  target value in the read buffer and the entry's vertex is the vertex of the corner
  before or after it in the face's corner loop; every other entry stays as it was.
\<close>

theorem propagate_faces_processes_hidden_faces:
  "length (propagate_faces fcs cverts hp action rbuf wbuf) = length wbuf
   \<and> (\<forall>v<length wbuf.
        propagate_faces fcs cverts hp action rbuf wbuf ! v
          = (if list_ex (\<lambda>f. hp ! f \<and> corner_propagates (fcs ! f) cverts rbuf (action_to_hide action) v)
                  [0..<length fcs]
             then action_to_hide action else wbuf ! v))"
  by (simp add: propagate_faces_eq fold_faces_length fold_faces_nth)

theorem propagate_faces_processes_hidden_faces_witness:
  "length (propagate_faces [(0, 3)] [0, 1, 2] [True] Show [True, False, False]
             [True, False, False]) = 3
   \<and> propagate_faces [(0, 3)] [0, 1, 2] [True] Show [True, False, False] [True, False, False] ! 0
       = False
   \<and> list_ex (\<lambda>f. [True] ! f \<and> corner_propagates ([(0, 3)] ! f) [0, 1, 2] [True, False, False]
                       (action_to_hide Show) 0) [0..<length [(0::nat, 3::nat)]]"
  using propagate_faces_processes_hidden_faces [of "[(0, 3)]" "[0, 1, 2]" "[True]" Show
      "[True, False, False]" "[True, False, False]"]
  by (simp add: corner_propagates_def action_to_hide_def face_corner_prev_def
      face_corner_next_def upt_0_3)

lemma nearI: "length buf = length orig \<Longrightarrow> (\<And>v. v < length orig \<Longrightarrow> buf ! v = val \<or> buf ! v = orig ! v) \<Longrightarrow> near val orig buf"
  by (simp add: near_def list_all_iff)

lemma nearD: "near val orig buf \<Longrightarrow> v < length orig \<Longrightarrow> buf ! v = val \<or> buf ! v = orig ! v"
  by (simp add: near_def list_all_iff)

lemma near_length: "near val orig buf \<Longrightarrow> length buf = length orig"
  by (simp add: near_def)

lemma near_refl: "near val orig orig"
  by (simp add: near_def list_all_iff)

lemma propagate_faces_near:
  assumes "near (action_to_hide action) orig wbuf"
  shows "near (action_to_hide action) orig (propagate_faces fcs cverts hp action rbuf wbuf)"
proof (rule nearI)
  show "length (propagate_faces fcs cverts hp action rbuf wbuf) = length orig"
    using assms by (simp add: propagate_faces_eq fold_faces_length near_length)
next
  fix v assume v: "v < length orig"
  then have "v < length wbuf" using assms by (simp add: near_length)
  then show "propagate_faces fcs cverts hp action rbuf wbuf ! v = action_to_hide action
          \<or> propagate_faces fcs cverts hp action rbuf wbuf ! v = orig ! v"
    using nearD [OF assms v] by (simp add: propagate_faces_eq fold_faces_nth)
qed

lemma propagate_step_near:
  "near2 (action_to_hide action) orig (snd st) \<Longrightarrow>
   near2 (action_to_hide action) orig (snd (propagate_step view action i st))"
  by (cases st)
     (simp add: propagate_step_def near2_def Let_def write_buffer_def set_write_buffer_def
        propagate_faces_near)

lemma propagate_fold_near:
  "near2 (action_to_hide action) orig (snd st) \<Longrightarrow>
   near2 (action_to_hide action) orig (snd (fold (propagate_step view action) is st))"
  by (induction "is" arbitrary: st) (simp_all add: propagate_step_near)

lemma grow_shrink_mesh_near:
  "hide_vert (mesh ob) = Some hv \<Longrightarrow>
   \<exists>hv'. hide_vert (mesh (fst (grow_shrink_visibility_mesh ob nodes action n))) = Some hv'
        \<and> near (action_to_hide action) hv hv'"
proof -
  assume h: "hide_vert (mesh ob) = Some hv"
  let ?view = "case hide_poly (mesh ob) of Some xs \<Rightarrow> AttributeView
                 | None \<Rightarrow> OwnedCopy (replicate (length (faces (mesh ob))) False)"
  let ?b = "\<lparr>buf_front = hv, buf_back = hv\<rparr>"
  obtain m1 b1 where p: "propagate_vertex_visibility (mesh ob) ?b ?view action n = (m1, b1)"
    by force
  have "near2 (action_to_hide action) hv (snd (mesh ob, ?b))"
    by (simp add: near2_def near_refl)
  from propagate_fold_near [OF this, of ?view "[0..<n]"] p
  have n2: "near2 (action_to_hide action) hv b1"
    by (simp add: propagate_vertex_visibility_def)
  then have "near (action_to_hide action) hv (write_buffer b1 (int n - 1))"
    by (simp add: near2_def write_buffer_def)
  then show ?thesis using h p
    by (simp add: grow_shrink_visibility_mesh_def Let_def)
qed

text \<open>
  C3, as the claim states it, fails on the quad strip with vertex 0 hidden: one
  iteration of grow (\<^verbatim>\<open>GROW\<close> is Show, "Grow Visibility") shows vertex 0, so the hidden
  set after is not a superset of the set before; one iteration of shrink (\<^verbatim>\<open>SHRINK\<close> is
  Hide) hides vertices 1 and 3 as well, so the set after is not a subset.
\<close>

theorem grow_hidden_not_superset_shrink_not_subset:
  "\<not> hidden_verts quad_strip_object
        \<subseteq> hidden_verts (fst (grow_shrink_visibility_mesh quad_strip_object [quad_strip_node] GROW 1))
   \<and> \<not> hidden_verts (fst (grow_shrink_visibility_mesh quad_strip_object [quad_strip_node] SHRINK 1))
        \<subseteq> hidden_verts quad_strip_object"
  by code_simp

text \<open>
  C3, amended. For every mesh state and every iteration count, the hidden-vertex set
  after grow (which grows the visible part) is a subset of the set before, and the
  hidden-vertex set after shrink is a superset of the set before.
\<close>

theorem grow_shrink_mesh_monotone:
  "hidden_verts (fst (grow_shrink_visibility_mesh ob nodes GROW iterations)) \<subseteq> hidden_verts ob
   \<and> hidden_verts ob \<subseteq> hidden_verts (fst (grow_shrink_visibility_mesh ob nodes SHRINK iterations))"
proof (cases "hide_vert (mesh ob)")
  case None
  then show ?thesis by (simp add: grow_shrink_visibility_mesh_def)
next
  case (Some hv)
  from grow_shrink_mesh_near [OF Some, of nodes GROW iterations]
  obtain hg where g: "hide_vert (mesh (fst (grow_shrink_visibility_mesh ob nodes GROW iterations))) = Some hg"
    "near False hv hg" by (auto simp: GROW_def action_to_hide_def)
  from grow_shrink_mesh_near [OF Some, of nodes SHRINK iterations]
  obtain hs where s: "hide_vert (mesh (fst (grow_shrink_visibility_mesh ob nodes SHRINK iterations))) = Some hs"
    "near True hv hs" by (auto simp: SHRINK_def action_to_hide_def)
  have "set (filter (\<lambda>v. hg ! v) [0..<length hg]) \<subseteq> set (filter (\<lambda>v. hv ! v) [0..<length hv])"
    using nearD [OF g(2)] near_length [OF g(2)] by auto
  moreover have "set (filter (\<lambda>v. hv ! v) [0..<length hv]) \<subseteq> set (filter (\<lambda>v. hs ! v) [0..<length hs])"
    using nearD [OF s(2)] near_length [OF s(2)] by auto
  ultimately show ?thesis using Some g(1) s(1) by (simp add: hidden_verts_def)
qed


theorem grow_shrink_mesh_monotone_witness:
  "hidden_verts quad_strip_object = {0}
   \<and> hidden_verts (fst (grow_shrink_visibility_mesh quad_strip_object [quad_strip_node] GROW 1)) = {}
   \<and> hidden_verts (fst (grow_shrink_visibility_mesh quad_strip_object [quad_strip_node] SHRINK 1))
       = {0, 1, 3}"
  using grow_shrink_mesh_monotone [of quad_strip_object "[quad_strip_node]" 1]
  by code_simp

subsection \<open>Consistency of faces and edges with vertices\<close>

lemma fold_indexed_writes_length:
  "length (fold (\<lambda>i d. d[k i := w i]) js d) = length d"
  by (induction js arbitrary: d) simp_all

lemma fold_indexed_writes_nth:
  "x < length d \<Longrightarrow>
   fold (\<lambda>i d. d[k i := G (k i)]) js d ! x = (if x \<in> k ` set js then G x else d ! x)"
proof (induction js arbitrary: d)
  case Nil
  then show ?case by simp
next
  case (Cons j js)
  have l: "x < length (d[k j := G (k j)])" using Cons.prems by simp
  show ?case
  proof (cases "x = k j")
    case True
    then show ?thesis using Cons.IH [OF l] Cons.prems by simp
  next
    case False
    then show ?thesis using Cons.IH [OF l] by auto
  qed
qed

lemma calc_face_hide_eq:
  "length hide_face = length nfaces \<Longrightarrow>
   calc_face_hide nfaces fcs cverts hv hide_face
     = map (\<lambda>f. list_ex (\<lambda>v. hv ! v) (slice cverts (fcs ! f))) nfaces"
proof (rule nth_equalityI)
  assume l: "length hide_face = length nfaces"
  show "length (calc_face_hide nfaces fcs cverts hv hide_face)
      = length (map (\<lambda>f. list_ex (\<lambda>v. hv ! v) (slice cverts (fcs ! f))) nfaces)"
    using l by (simp add: calc_face_hide_def fold_indexed_writes_length)
  fix i assume "i < length (calc_face_hide nfaces fcs cverts hv hide_face)"
  then have i: "i < length hide_face" by (simp add: calc_face_hide_def fold_indexed_writes_length)
  show "calc_face_hide nfaces fcs cverts hv hide_face ! i
      = map (\<lambda>f. list_ex (\<lambda>v. hv ! v) (slice cverts (fcs ! f))) nfaces ! i"
    using fold_indexed_writes_nth [OF i, of "\<lambda>i. i"
        "\<lambda>i. list_ex (\<lambda>v. hv ! v) (slice cverts (fcs ! (nfaces ! i)))" "[0..<length nfaces]"] i l
    by (simp add: calc_face_hide_def)
qed

lemma scatter_map_eq:
  "scatter (map G idx) idx d = fold (\<lambda>i d. d[idx ! i := G (idx ! i)]) [0..<length idx] d"
  unfolding scatter_def by (rule fold_cong) simp_all

lemma scatter_map_length: "length (scatter (map G idx) idx d) = length d"
  by (simp add: scatter_def fold_indexed_writes_length)

lemma scatter_map_nth:
  "x < length d \<Longrightarrow> scatter (map G idx) idx d ! x = (if x \<in> set idx then G x else d ! x)"
proof -
  assume x: "x < length d"
  have "(\<lambda>i. idx ! i) ` set [0..<length idx] = set idx"
    by (auto simp: in_set_conv_nth)
  then show ?thesis
    using fold_indexed_writes_nth [OF x, of "\<lambda>i. idx ! i" G "[0..<length idx]"]
    by (simp add: scatter_map_eq)
qed

lemma indexed_data_equal_map:
  "indexed_data_equal d idx (map G idx) = (\<forall>f\<in>set idx. d ! f = G f)"
  unfolding indexed_data_equal_def list_all_iff
  by (auto simp: in_set_conv_nth) (metis nth_mem)

lemma flush_step_length:
  "length (snd (flush_face_changes_node_step m hv node hp)) = length hp"
  by (simp add: flush_face_changes_node_step_def Let_def gather_def calc_face_hide_eq
      scatter_map_length)

lemma flush_step_nth:
  "x < length hp \<Longrightarrow>
   snd (flush_face_changes_node_step m hv node hp) ! x
     = (if x \<in> set (node_faces node)
        then list_ex (\<lambda>v. hv ! v) (slice (corner_verts m) (faces m ! x)) else hp ! x)"
  by (simp add: flush_face_changes_node_step_def Let_def gather_def calc_face_hide_eq
      scatter_map_nth indexed_data_equal_map)

lemma flush_loop_length:
  "length (snd (flush_face_changes_node_loop m hv nodes hp)) = length hp"
proof (induction nodes arbitrary: hp)
  case Nil
  then show ?case by simp
next
  case (Cons node nodes)
  show ?case
    using Cons.IH [of "snd (flush_face_changes_node_step m hv node hp)"]
      flush_step_length [of m hv node hp]
    by (simp add: split_beta Let_def)
qed

lemma flush_loop_nth:
  "x < length hp \<Longrightarrow>
   snd (flush_face_changes_node_loop m hv nodes hp) ! x
     = (if list_ex (\<lambda>node. x \<in> set (node_faces node)) nodes
        then list_ex (\<lambda>v. hv ! v) (slice (corner_verts m) (faces m ! x)) else hp ! x)"
proof (induction nodes arbitrary: hp)
  case Nil
  then show ?case by simp
next
  case (Cons node nodes)
  have l: "x < length (snd (flush_face_changes_node_step m hv node hp))"
    using Cons.prems by (simp add: flush_step_length)
  show ?case
    using Cons.IH [OF l] flush_step_nth [OF Cons.prems, of m hv node]
    by (simp add: split_beta Let_def)
qed


lemma vert_loop_sticky:
  "fst (snd (fold (vert_hide_update_step c) nodes (hv, True, ob))) = True"
  by (induction nodes arbitrary: hv ob) (simp_all add: vert_hide_update_step_def Let_def)

lemma vert_loop_unchanged:
  "\<not> fst (snd (fold (vert_hide_update_step c) nodes (hv, ac, ob))) \<Longrightarrow>
   fst (fold (vert_hide_update_step c) nodes (hv, ac, ob)) = hv"
proof (induction nodes arbitrary: hv ac ob)
  case Nil
  then show ?case by simp
next
  case (Cons node nodes)
  show ?case
  proof (cases "indexed_data_equal hv (unique_verts node)
                  (c (unique_verts node) (gather hv (unique_verts node)))")
    case True
    then have "vert_hide_update_step c node (hv, ac, ob) = (hv, ac, ob)"
      by (simp add: vert_hide_update_step_def Let_def)
    then show ?thesis using Cons by simp
  next
    case False
    then have "vert_hide_update_step c node (hv, ac, ob)
        = (scatter (c (unique_verts node) (gather hv (unique_verts node))) (unique_verts node) hv,
           True, push_node ob node HideVert)"
      by (simp add: vert_hide_update_step_def Let_def)
    then show ?thesis using Cons.prems vert_loop_sticky by simp
  qed
qed

lemma consistent_after_flushes:
  "visibility_consistent
     (m\<lparr>hide_vert := Some hv,
        hide_poly := Some (mesh_face_hide_from_vert (faces m) (corner_verts m) hv),
        hide_edge := Some (mesh_edge_hide_from_vert (edges m) hv)\<rparr>)"
  by (simp add: visibility_consistent_def lookup_or_default_def mesh_face_hide_from_vert_def
      mesh_edge_hide_from_vert_def list_all_iff)

lemma consistent_hide_vert_default:
  "visibility_consistent (m\<lparr>hide_vert := Some (lookup_or_default (hide_vert m) (verts_num m))\<rparr>)
     = visibility_consistent m"
  by (simp add: visibility_consistent_def lookup_or_default_def)

lemma list_ex_cong_nth:
  "(\<And>v. v \<in> set xs \<Longrightarrow> P v = Q v) \<Longrightarrow> list_ex P xs = list_ex Q xs"
  by (auto simp: list_ex_iff)

lemma vert_hide_update_consistent_changed:
  assumes c: "visibility_consistent (mesh ob)"
    and cover: "changed_faces_covered nodes (mesh ob) (mesh (fst (vert_hide_update ob nodes calc_hide)))"
  shows "visibility_consistent (mesh (fst (vert_hide_update ob nodes calc_hide)))"
proof -
  let ?m = "mesh ob"
  let ?hva = "lookup_or_default (hide_vert ?m) (verts_num ?m)"
  let ?hpa = "lookup_or_default (hide_poly ?m) (length (faces ?m))"
  obtain hv ac ob1 where r: "fold (vert_hide_update_step calc_hide) nodes (?hva, False, ob) = (hv, ac, ob1)"
    using prod_cases3 by blast
  show ?thesis
  proof (cases ac)
    case False
    have "hv = ?hva" using vert_loop_unchanged [of calc_hide nodes ?hva False ob] r False by simp
    then show ?thesis using r False c
      by (simp add: vert_hide_update_def Let_def consistent_hide_vert_default)
  next
    case True
    let ?hp = "snd (flush_face_changes_node_loop (?m\<lparr>hide_vert := Some hv\<rparr>) hv nodes ?hpa)"
    have m: "mesh (fst (vert_hide_update ob nodes calc_hide))
        = ?m\<lparr>hide_vert := Some hv, hide_poly := Some ?hp,
             hide_edge := Some (mesh_edge_hide_from_vert (edges ?m) hv)\<rparr>"
      using r True
      by (simp add: vert_hide_update_def Let_def flush_face_changes_node_def
          flush_edge_changes_def split_beta)
    have l0: "length ?hpa = length (faces ?m)" using c by (simp add: visibility_consistent_def Let_def)
    have l: "length ?hp = length (faces ?m)" using l0 by (simp add: flush_loop_length)
    have n: "?hp ! f = list_ex (\<lambda>v. hv ! v) (slice (corner_verts ?m) (faces ?m ! f))"
      if f: "f < length (faces ?m)" for f
    proof (cases "list_ex (\<lambda>node. f \<in> set (node_faces node)) nodes")
      case True
      then show ?thesis
        using flush_loop_nth [of f ?hpa "?m\<lparr>hide_vert := Some hv\<rparr>" hv nodes] f l0 by simp
    next
      case False
      have "list_all (\<lambda>v. ?hva ! v = hv ! v) (slice (corner_verts ?m) (faces ?m ! f))"
        using cover f False unfolding m
        by (fastforce simp add: changed_faces_covered_def list_all_iff lookup_or_default_def)
      then have "list_ex (\<lambda>v. ?hva ! v) (slice (corner_verts ?m) (faces ?m ! f))
               = list_ex (\<lambda>v. hv ! v) (slice (corner_verts ?m) (faces ?m ! f))"
        by (intro list_ex_cong_nth) (simp add: list_all_iff)
      moreover have "?hpa ! f = list_ex (\<lambda>v. ?hva ! v) (slice (corner_verts ?m) (faces ?m ! f))"
        using c f by (simp add: visibility_consistent_def Let_def list_all_iff)
      moreover have "?hp ! f = ?hpa ! f"
        using flush_loop_nth [of f ?hpa "?m\<lparr>hide_vert := Some hv\<rparr>" hv nodes] f l0 False by simp
      ultimately show ?thesis by simp
    qed
    show ?thesis
      unfolding m using l n
      by (simp add: visibility_consistent_def lookup_or_default_def mesh_edge_hide_from_vert_def
          list_all_iff)
  qed
qed

lemma cover_all_changed:
  "nodes_cover_faces nodes m \<Longrightarrow> changed_faces_covered nodes m m'"
  by (simp add: nodes_cover_faces_def changed_faces_covered_def list_all_iff)


lemma mesh_show_all_mesh:
  "mesh (fst (mesh_show_all ob nodes)) = mesh_hide_vert_flush ((mesh ob)\<lparr>hide_vert := None\<rparr>)"
  by (simp add: mesh_show_all_def mesh_show_all_fold split: option.splits)

lemma mesh_show_all_consistent:
  "visibility_consistent (mesh (fst (mesh_show_all ob nodes)))"
  by (simp add: mesh_show_all_mesh mesh_hide_vert_flush_def Let_def visibility_consistent_def
      lookup_or_default_def mesh_face_hide_from_vert_def mesh_edge_hide_from_vert_def list_all_iff)


lemma propagate_step_frame:
  "faces (fst (propagate_step view action i st)) = faces (fst st)
   \<and> corner_verts (fst (propagate_step view action i st)) = corner_verts (fst st)
   \<and> edges (fst (propagate_step view action i st)) = edges (fst st)
   \<and> verts_num (fst (propagate_step view action i st)) = verts_num (fst st)
   \<and> hide_vert (fst (propagate_step view action i st)) = hide_vert (fst st)
   \<and> hide_edge (fst (propagate_step view action i st)) = hide_edge (fst st)"
  by (cases st) (simp add: propagate_step_def Let_def flush_face_changes_def)

lemma propagate_fold_frame:
  "faces (fst (fold (propagate_step view action) js st)) = faces (fst st)
   \<and> corner_verts (fst (fold (propagate_step view action) js st)) = corner_verts (fst st)
   \<and> edges (fst (fold (propagate_step view action) js st)) = edges (fst st)
   \<and> verts_num (fst (fold (propagate_step view action) js st)) = verts_num (fst st)
   \<and> hide_vert (fst (fold (propagate_step view action) js st)) = hide_vert (fst st)
   \<and> hide_edge (fst (fold (propagate_step view action) js st)) = hide_edge (fst st)"
proof (induction js arbitrary: st)
  case Nil
  then show ?case by simp
next
  case (Cons j js)
  show ?case
    using Cons.IH [of "propagate_step view action j st"] propagate_step_frame [of view action j st]
    by simp
qed

lemma propagate_step_hide_poly:
  "hide_poly (fst (propagate_step view action i st))
     = Some (mesh_face_hide_from_vert (faces (fst st)) (corner_verts (fst st))
               (write_buffer (snd (propagate_step view action i st)) (int i)))"
  by (cases st)
     (simp add: propagate_step_def Let_def flush_face_changes_def write_buffer_def
        set_write_buffer_def)

lemma propagate_last_hide_poly:
  "hide_poly (fst (propagate_vertex_visibility m buffers view action (Suc k)))
     = Some (mesh_face_hide_from_vert (faces m) (corner_verts m)
               (write_buffer (snd (propagate_vertex_visibility m buffers view action (Suc k)))
                  (int k)))"
  using propagate_step_hide_poly [of view action k "fold (propagate_step view action) [0..<k] (m, buffers)"]
    propagate_fold_frame [of view action "[0..<k]" "(m, buffers)"]
  by (simp add: propagate_vertex_visibility_def)

lemma write_buffer_minus_one: "write_buffer buffers (- 1) = buf_front buffers"
  by (simp add: write_buffer_def smod_int_alt_def)

lemma grow_shrink_mesh_consistent:
  assumes c: "visibility_consistent (mesh ob)"
  shows "visibility_consistent (mesh (fst (grow_shrink_visibility_mesh ob nodes action n)))"
proof (cases "hide_vert (mesh ob)")
  case None
  then show ?thesis using c by (simp add: grow_shrink_visibility_mesh_def)
next
  case (Some hv)
  let ?m = "mesh ob"
  let ?view = "case hide_poly ?m of Some xs \<Rightarrow> AttributeView
                 | None \<Rightarrow> OwnedCopy (replicate (length (faces ?m)) False)"
  let ?b = "\<lparr>buf_front = hv, buf_back = hv\<rparr>"
  obtain m1 b1 where p: "propagate_vertex_visibility ?m ?b ?view action n = (m1, b1)" by force
  have frame: "faces m1 = faces ?m" "corner_verts m1 = corner_verts ?m" "edges m1 = edges ?m"
    "verts_num m1 = verts_num ?m"
    using propagate_fold_frame [of ?view action "[0..<n]" "(?m, ?b)"] p
    by (simp_all add: propagate_vertex_visibility_def)
  let ?last = "write_buffer b1 (int n - 1)"
  have r: "mesh (fst (grow_shrink_visibility_mesh ob nodes action n))
      = m1\<lparr>hide_edge := Some (mesh_edge_hide_from_vert (edges ?m) ?last), hide_vert := Some ?last\<rparr>"
    using Some p frame by (simp add: grow_shrink_visibility_mesh_def Let_def flush_edge_changes_def)
  show ?thesis
  proof (cases n)
    case 0
    then have "m1 = ?m" "b1 = ?b" using p by (simp_all add: propagate_vertex_visibility_def)
    then have "?last = hv" using 0 by (simp add: write_buffer_minus_one)
    then show ?thesis
      unfolding r using \<open>m1 = ?m\<close> c Some
      by (simp add: visibility_consistent_def lookup_or_default_def mesh_edge_hide_from_vert_def
          list_all_iff Let_def)
  next
    case (Suc k)
    have "hide_poly m1 = Some (mesh_face_hide_from_vert (faces ?m) (corner_verts ?m) ?last)"
      using propagate_last_hide_poly [of ?m ?b ?view action k] p Suc by simp
    then show ?thesis
      unfolding r using frame
      by (simp add: visibility_consistent_def lookup_or_default_def mesh_edge_hide_from_vert_def
          mesh_face_hide_from_vert_def list_all_iff Let_def)
  qed
qed

lemma gesture_consistent:
  assumes "visibility_consistent (mesh ob)"
    and "changed_faces_covered nodes (mesh ob)
           (mesh (fst (partialvis_gesture_update_mesh is_affected ob action nodes)))"
  shows "visibility_consistent (mesh (fst (partialvis_gesture_update_mesh is_affected ob action nodes)))"
proof (cases "action = Show \<and> hide_vert (mesh ob) = None")
  case True
  then show ?thesis using assms(1) by (simp add: partialvis_gesture_update_mesh_def)
next
  case False
  then have e: "partialvis_gesture_update_mesh is_affected ob action nodes
      = vert_hide_update ob nodes (gesture_calc_hide is_affected (action_to_hide action))"
    by (auto simp add: partialvis_gesture_update_mesh_def)
  show ?thesis
    using assms unfolding e by (rule vert_hide_update_consistent_changed)
qed

lemma all_hide_consistent:
  assumes "visibility_consistent (mesh ob)"
    and "changed_faces_covered nodes (mesh ob)
           (mesh (fst (partialvis_all_update_mesh ob Hide nodes)))"
  shows "visibility_consistent (mesh (fst (partialvis_all_update_mesh ob Hide nodes)))"
proof -
  have e: "partialvis_all_update_mesh ob Hide nodes
      = vert_hide_update ob nodes (\<lambda>verts hide. replicate (length hide) True)"
    by (simp add: partialvis_all_update_mesh_def)
  show ?thesis
    using assms unfolding e by (rule vert_hide_update_consistent_changed)
qed

lemma all_show_consistent:
  assumes "visibility_consistent (mesh ob)"
  shows "visibility_consistent (mesh (fst (partialvis_all_update_mesh ob Show nodes)))"
  using assms mesh_show_all_consistent [of ob nodes]
  by (simp add: partialvis_all_update_mesh_def)

lemma masked_consistent:
  assumes "visibility_consistent (mesh ob)"
    and "changed_faces_covered nodes (mesh ob)
           (mesh (fst (partialvis_masked_update_mesh ob action nodes)))
         \<or> (action = Show \<and> (sculpt_mask (mesh ob) = None \<or> sculpt_mask (mesh ob) = Some []))"
  shows "visibility_consistent (mesh (fst (partialvis_masked_update_mesh ob action nodes)))"
proof -
  let ?mask = "case sculpt_mask (mesh ob) of None \<Rightarrow> [] | Some xs \<Rightarrow> xs"
  consider (skip) "action = Show \<and> hide_vert (mesh ob) = None"
    | (show_all) "\<not> (action = Show \<and> hide_vert (mesh ob) = None)" "action = Show" "?mask = []"
    | (update) "\<not> (action = Show \<and> hide_vert (mesh ob) = None)" "?mask \<noteq> []"
    | (nothing) "\<not> (action = Show \<and> hide_vert (mesh ob) = None)" "action \<noteq> Show" "?mask = []"
    by blast
  then show ?thesis
  proof cases
    case skip
    then show ?thesis using assms(1) by (simp add: partialvis_masked_update_mesh_def)
  next
    case show_all
    then show ?thesis using mesh_show_all_consistent [of ob nodes]
      by (auto simp add: partialvis_masked_update_mesh_def Let_def)
  next
    case update
    then have e: "partialvis_masked_update_mesh ob action nodes
        = vert_hide_update ob nodes (masked_calc_hide ?mask (action_to_hide action))"
      by (auto simp add: partialvis_masked_update_mesh_def Let_def)
    from update(2) have "\<not> (sculpt_mask (mesh ob) = None \<or> sculpt_mask (mesh ob) = Some [])"
      by (auto split: option.splits)
    with assms(2) have "changed_faces_covered nodes (mesh ob)
           (mesh (fst (partialvis_masked_update_mesh ob action nodes)))" by blast
    with assms(1) show ?thesis unfolding e by (rule vert_hide_update_consistent_changed)
  next
    case nothing
    then show ?thesis using assms(1) by (auto simp add: partialvis_masked_update_mesh_def Let_def)
  qed
qed


text \<open>
  Once the face flags of the three triangles are A hidden, B and C visible, no vertex
  and edge flags are consistent with them, whatever a flush from faces to vertices
  computes: B and C need all five vertices visible, A needs a hidden corner.
\<close>

lemma toggled_faces_admit_no_consistent_flags:
  "\<not> visibility_consistent
       (three_triangles\<lparr>hide_poly := Some [True, False, False], hide_vert := hv, hide_edge := he\<rparr>)"
  by (cases hv)
     (auto simp add: visibility_consistent_def three_triangles_def lookup_or_default_def slice_def
        upt_0_3 Let_def)

text \<open>
  C5, as the claim states it, fails for invert. On the three triangles, where the
  derived flags are consistent, \<^verbatim>\<open>invert_visibility_mesh\<close> hides A and shows B and C; the
  face flush then shows every vertex, since each one belongs to the visible B or C. The
  hidden face A has no hidden corner, and its two own edges are hidden between visible
  endpoints.
\<close>

theorem invert_breaks_consistency:
  "visibility_consistent (mesh three_triangles_object)
   \<and> \<not> visibility_consistent
         (mesh (fst (invert_visibility_mesh three_triangles_object [three_triangles_node])))
   \<and> hide_poly (mesh (fst (invert_visibility_mesh three_triangles_object [three_triangles_node])))
       = Some [True, False, False]
   \<and> hide_vert (mesh (fst (invert_visibility_mesh three_triangles_object [three_triangles_node])))
       = Some [False, False, False, False, False]"
  by code_simp

text \<open>
  The two hypotheses of the statement below are needed. A predicate-driven update on
  part of the nodes that changes a vertex of a face outside the node set leaves that
  face stale: hiding vertex 1 of the quad strip through the left node alone leaves the
  second quad visible. And an operation that finds nothing to change leaves an
  inconsistent state, such as the one after invert, as it is.
\<close>

lemma partial_node_set_breaks_consistency:
  "visibility_consistent (mesh quad_strip_object)
   \<and> \<not> changed_faces_covered [quad_strip_left_node] (mesh quad_strip_object)
         (mesh (fst (partialvis_gesture_update_mesh ((=) 1) quad_strip_object Hide [quad_strip_left_node])))
   \<and> \<not> visibility_consistent
         (mesh (fst (partialvis_gesture_update_mesh ((=) 1) quad_strip_object Hide [quad_strip_left_node])))"
  by code_simp

lemma inconsistent_state_stays_inconsistent:
  "partialvis_masked_update_mesh
       (fst (invert_visibility_mesh three_triangles_object [three_triangles_node])) Hide
       (snd (invert_visibility_mesh three_triangles_object [three_triangles_node]))
     = invert_visibility_mesh three_triangles_object [three_triangles_node]"
  by code_simp

text \<open>
  C5, amended. The vertex-driven operations keep the derived flags consistent. Started
  from a consistent state, after the predicate-driven vertex update (with any callback),
  the gesture update, hide-all and masked hide and show, run on a node set that
  contains every face with a corner vertex whose flag the operation changes (the nodes
  of the whole tree always do), and after show-all and grow and shrink (with any
  iteration count) on any node set, every face flag is the OR of its corner vertices'
  flags and every edge flag is the OR of its two endpoints' flags. Invert is not among
  them: it sets the face flags and derives the others from them.
\<close>

theorem vertex_driven_operations_keep_consistency:
  assumes "visibility_consistent (mesh ob)"
  shows "(changed_faces_covered nodes (mesh ob) (mesh (fst (vert_hide_update ob nodes calc_hide)))
            \<longrightarrow> visibility_consistent (mesh (fst (vert_hide_update ob nodes calc_hide))))
       \<and> (changed_faces_covered nodes (mesh ob)
              (mesh (fst (partialvis_gesture_update_mesh is_affected ob action nodes)))
            \<longrightarrow> visibility_consistent
                  (mesh (fst (partialvis_gesture_update_mesh is_affected ob action nodes))))
       \<and> (changed_faces_covered nodes (mesh ob) (mesh (fst (partialvis_all_update_mesh ob Hide nodes)))
            \<longrightarrow> visibility_consistent (mesh (fst (partialvis_all_update_mesh ob Hide nodes))))
       \<and> visibility_consistent (mesh (fst (partialvis_all_update_mesh ob Show nodes)))
       \<and> (changed_faces_covered nodes (mesh ob)
              (mesh (fst (partialvis_masked_update_mesh ob action nodes)))
            \<or> (action = Show \<and> (sculpt_mask (mesh ob) = None \<or> sculpt_mask (mesh ob) = Some []))
            \<longrightarrow> visibility_consistent (mesh (fst (partialvis_masked_update_mesh ob action nodes))))
       \<and> visibility_consistent (mesh (fst (grow_shrink_visibility_mesh ob nodes action iterations)))"
  using assms vert_hide_update_consistent_changed [OF assms, of nodes calc_hide]
    gesture_consistent [OF assms, of nodes is_affected action]
    all_hide_consistent [OF assms, of nodes] all_show_consistent [OF assms, of nodes]
    masked_consistent [OF assms, of nodes action]
    grow_shrink_mesh_consistent [OF assms, of nodes action iterations]
  by blast

theorem vertex_driven_operations_keep_consistency_witness:
  "visibility_consistent (mesh quad_strip_object)
   \<and> changed_faces_covered [quad_strip_left_node] (mesh quad_strip_object)
       (mesh (fst (partialvis_gesture_update_mesh ((=) 0) quad_strip_object Show [quad_strip_left_node])))
   \<and> \<not> nodes_cover_faces [quad_strip_left_node] (mesh quad_strip_object)
   \<and> visibility_consistent
       (mesh (fst (partialvis_gesture_update_mesh ((=) 0) quad_strip_object Show [quad_strip_left_node])))
   \<and> hide_vert (mesh (fst (partialvis_gesture_update_mesh ((=) 0) quad_strip_object Show
                              [quad_strip_left_node])))
       = Some [False, False, False, False, False, False]
   \<and> changed_faces_covered [quad_strip_node] (mesh quad_strip_object)
       (mesh (fst (partialvis_all_update_mesh quad_strip_object Hide [quad_strip_node])))
   \<and> visibility_consistent
       (mesh (fst (partialvis_all_update_mesh quad_strip_object Hide [quad_strip_node])))
   \<and> hide_poly (mesh (fst (partialvis_all_update_mesh quad_strip_object Hide [quad_strip_node])))
       = Some [True, True]
   \<and> visibility_consistent
       (mesh (fst (grow_shrink_visibility_mesh quad_strip_object [quad_strip_node] Hide 1)))
   \<and> hide_vert (mesh (fst (grow_shrink_visibility_mesh quad_strip_object [quad_strip_node] Hide 1)))
       = Some [True, True, False, True, False, False]"
proof -
  have a: "visibility_consistent (mesh quad_strip_object)" by code_simp
  show ?thesis
    using vertex_driven_operations_keep_consistency [OF a,
        where nodes = "[quad_strip_left_node]" and is_affected = "(=) 0" and action = Show]
      vertex_driven_operations_keep_consistency [OF a,
        where nodes = "[quad_strip_node]" and action = Hide and iterations = 1]
      a
    by code_simp
qed

subsection \<open>The iterations of the grow and shrink pass\<close>

lemma pass_state_Suc:
  "pass_state m hv action (Suc k) = propagate_step (pass_view m) action k (pass_state m hv action k)"
  by (simp add: pass_state_def propagate_vertex_visibility_def)

lemma pass_state_frame:
  "faces (fst (pass_state m hv action k)) = faces m
   \<and> corner_verts (fst (pass_state m hv action k)) = corner_verts m"
  using propagate_fold_frame [of "pass_view m" action "[0..<k]" "(m, \<lparr>buf_front = hv, buf_back = hv\<rparr>)"]
  by (simp add: pass_state_def propagate_vertex_visibility_def)

lemma pass_state_hide_poly:
  "hide_poly m \<noteq> None \<Longrightarrow> hide_poly (fst (pass_state m hv action k)) \<noteq> None"
proof (cases k)
  case 0
  assume "hide_poly m \<noteq> None"
  then show ?thesis using 0 by (simp add: pass_state_def propagate_vertex_visibility_def)
next
  case (Suc j)
  show ?thesis
    using propagate_last_hide_poly [of m "\<lparr>buf_front = hv, buf_back = hv\<rparr>" "pass_view m" action j] Suc
    by (simp add: pass_state_def)
qed

lemma read_after_write: "read_buffer (set_write_buffer b c w) c = read_buffer b c"
  by (simp add: read_buffer_def set_write_buffer_def)

lemma write_after_write: "write_buffer (set_write_buffer b c w) c = w"
  by (simp add: write_buffer_def set_write_buffer_def)

lemma grow_shrink_mesh_result:
  "hide_vert (mesh ob) = Some hv \<Longrightarrow>
   hide_vert (mesh (fst (grow_shrink_visibility_mesh ob nodes action k)))
     = Some (write_buffer (snd (pass_state (mesh ob) hv action k)) (int k - 1))"
  by (simp add: grow_shrink_visibility_mesh_def Let_def pass_state_def pass_view_def split_beta)

text \<open>
  C4, amended. In each iteration of the pass that \<^verbatim>\<open>grow_shrink_visibility_mesh\<close> runs,
  exactly the faces whose flag is set in the \<^verbatim>\<open>.hide_poly\<close> span of the pass are
  processed, for Hide and for Show alike. When the attribute exists at entry the span
  is the attribute itself, so these are the faces whose current hidden flag is set;
  when it is absent at entry the span is a private all-false copy and no face is
  processed in any iteration. An entry of the write buffer of iteration \<open>k\<close> becomes the
  target value when some corner of a processed face has its vertex at the target value
  in the read buffer and the entry's vertex is the vertex of the corner before or after
  it in the face's corner loop; every other entry stays as it was, and the read buffer
  is not written. The vertex flags after \<open>k\<close> iterations are the write buffer of the
  last one.
\<close>

theorem grow_shrink_pass_iteration:
  assumes "hide_vert (mesh ob) = Some hv"
  shows
   "(let m = mesh ob;
         st = pass_state m hv action k;
         st' = pass_state m hv action (Suc k);
         hp = varray_span_read (pass_view m) (fst st);
         rbuf = read_buffer (snd st) (int k);
         wbuf = write_buffer (snd st) (int k);
         target = action_to_hide action
     in (hide_poly m \<noteq> None \<longrightarrow> hide_poly (fst st) = Some hp)
        \<and> (hide_poly m = None \<longrightarrow> hp = replicate (length (faces m)) False)
        \<and> read_buffer (snd st') (int k) = rbuf
        \<and> length (write_buffer (snd st') (int k)) = length wbuf
        \<and> (\<forall>v<length wbuf.
              write_buffer (snd st') (int k) ! v
                = (if list_ex (\<lambda>f. hp ! f \<and> corner_propagates (faces m ! f) (corner_verts m) rbuf target v)
                        [0..<length (faces m)]
                   then target else wbuf ! v))
        \<and> hide_vert (mesh (fst (grow_shrink_visibility_mesh ob nodes action k)))
            = Some (write_buffer (snd st) (int k - 1)))"
proof -
  let ?m = "mesh ob"
  let ?st = "pass_state ?m hv action k"
  let ?hp = "varray_span_read (pass_view ?m) (fst ?st)"
  let ?rbuf = "read_buffer (snd ?st) (int k)"
  let ?wbuf = "write_buffer (snd ?st) (int k)"
  let ?w' = "propagate_faces (faces ?m) (corner_verts ?m) ?hp action ?rbuf ?wbuf"
  have fr: "faces (fst ?st) = faces ?m" "corner_verts (fst ?st) = corner_verts ?m"
    using pass_state_frame [of ?m hv action k] by simp_all
  have s: "snd (pass_state ?m hv action (Suc k)) = set_write_buffer (snd ?st) (int k) ?w'"
    using fr by (simp add: pass_state_Suc propagate_step_def Let_def split_beta)
  have a: "hide_poly (fst ?st) = Some ?hp" if "hide_poly ?m \<noteq> None"
    using pass_state_hide_poly [OF that, of hv action k] that
    by (auto simp add: pass_view_def varray_span_read_def lookup_or_default_def)
  have b: "?hp = replicate (length (faces ?m)) False" if "hide_poly ?m = None"
    using that by (simp add: pass_view_def varray_span_read_def)
  have c: "read_buffer (snd (pass_state ?m hv action (Suc k))) (int k) = ?rbuf"
    by (simp add: s read_after_write)
  have d: "write_buffer (snd (pass_state ?m hv action (Suc k))) (int k) = ?w'"
    by (simp add: s write_after_write)
  have e: "length ?w' = length ?wbuf"
    by (simp add: propagate_faces_eq fold_faces_length)
  have f: "?w' ! v = (if list_ex (\<lambda>f. ?hp ! f \<and> corner_propagates (faces ?m ! f) (corner_verts ?m)
                                  ?rbuf (action_to_hide action) v) [0..<length (faces ?m)]
                      then action_to_hide action else ?wbuf ! v)"
    if "v < length ?wbuf" for v
    using that by (simp add: propagate_faces_eq fold_faces_nth)
  show ?thesis
    unfolding Let_def using a b c e f grow_shrink_mesh_result [OF assms, of nodes action k]
    by (simp add: d)
qed

theorem grow_shrink_pass_iteration_witness:
  "hide_vert (mesh quad_strip_object) = Some [True, False, False, False, False, False]
   \<and> hide_poly (fst (pass_state (mesh quad_strip_object) [True, False, False, False, False, False] Hide 1))
       = Some [True, True]
   \<and> write_buffer (snd (pass_state (mesh quad_strip_object)
                           [True, False, False, False, False, False] Hide 1)) 1
       = [True, False, False, False, False, False]
   \<and> write_buffer (snd (pass_state (mesh quad_strip_object)
                           [True, False, False, False, False, False] Hide 2)) 1
       = [True, True, True, True, True, False]
   \<and> hide_vert (mesh quad_strip_object_without_hide_poly)
       = Some [True, False, False, False, False, False]
   \<and> hide_poly (fst (pass_state (mesh quad_strip_object_without_hide_poly)
                         [True, False, False, False, False, False] Hide 1))
       = Some [True, False]
   \<and> varray_span_read (pass_view (mesh quad_strip_object_without_hide_poly))
         (fst (pass_state (mesh quad_strip_object_without_hide_poly)
                 [True, False, False, False, False, False] Hide 1))
       = [False, False]
   \<and> write_buffer (snd (pass_state (mesh quad_strip_object_without_hide_poly)
                           [True, False, False, False, False, False] Hide 2)) 1
       = [True, False, False, False, False, False]"
proof -
  have a: "hide_vert (mesh quad_strip_object) = Some [True, False, False, False, False, False]"
    by code_simp
  have b: "hide_vert (mesh quad_strip_object_without_hide_poly)
             = Some [True, False, False, False, False, False]"
    by code_simp
  have c: "hide_poly (fst (pass_state (mesh quad_strip_object)
                             [True, False, False, False, False, False] Hide 1)) = Some [True, True]
     \<and> write_buffer (snd (pass_state (mesh quad_strip_object)
                             [True, False, False, False, False, False] Hide 1)) 1
         = [True, False, False, False, False, False]
     \<and> write_buffer (snd (pass_state (mesh quad_strip_object)
                             [True, False, False, False, False, False] Hide 2)) 1
         = [True, True, True, True, True, False]
     \<and> hide_poly (fst (pass_state (mesh quad_strip_object_without_hide_poly)
                           [True, False, False, False, False, False] Hide 1))
         = Some [True, False]
     \<and> varray_span_read (pass_view (mesh quad_strip_object_without_hide_poly))
           (fst (pass_state (mesh quad_strip_object_without_hide_poly)
                   [True, False, False, False, False, False] Hide 1))
         = [False, False]
     \<and> write_buffer (snd (pass_state (mesh quad_strip_object_without_hide_poly)
                             [True, False, False, False, False, False] Hide 2)) 1
         = [True, False, False, False, False, False]"
    by code_simp
  show ?thesis
    using grow_shrink_pass_iteration [OF a, of Hide 1 "[quad_strip_node]"]
      grow_shrink_pass_iteration [OF b, of Hide 1 "[quad_strip_node]"] a b c
    by blast
qed

end
